theory Spec2Isabelle
  imports Complex_Main
begin

section \<open>JavaScript arrays\<close>

text \<open>
  The engine is TypeScript; its arrays are JavaScript arrays. An array is a list,
  \<open>push\<close> appends at the end, \<open>filter\<close> is the list filter. The two array
  methods whose corner cases matter are written out as ECMAScript defines them:
  \<open>indexOf\<close> answers \<open>-1\<close> for an element that is absent, and \<open>splice\<close> counts
  a negative start index from the end of the array.
\<close>

fun index_from :: "'a \<Rightarrow> 'a list \<Rightarrow> int \<Rightarrow> int" where
  "index_from a [] i = - 1"
| "index_from a (b # bs) i = (if a = b then i else index_from a bs (i + 1))"

definition js_indexOf :: "'a \<Rightarrow> 'a list \<Rightarrow> int" where
  "js_indexOf a xs = index_from a xs 0"

definition js_splice :: "int \<Rightarrow> int \<Rightarrow> 'a list \<Rightarrow> 'a list" where
  "js_splice start deleteCount xs =
     (let len = int (length xs);
          actualStart = (if start < 0 then max (len + start) 0 else min start len);
          actualDeleteCount = min (max deleteCount 0) (len - actualStart)
      in take (nat actualStart) xs @ drop (nat (actualStart + actualDeleteCount)) xs)"


section \<open>JavaScript numbers and errors\<close>

text \<open>
  A JavaScript number is an IEEE-754 double. The model computes with rationals, and
  a value that can leave the finite numbers (a quotient, a remainder) has the type
  \<open>number\<close>, which adds the two infinities and NaN as JavaScript produces them
  (negative zero is identified with zero). Where the rounding of doubles decides what
  the program does, the rounding is applied explicitly, see \<open>fl64\<close> below.
\<close>

datatype number = Finite rat | PosInfinity | NegInfinity | NaN

definition js_div :: "rat \<Rightarrow> rat \<Rightarrow> number" where
  "js_div a b =
     (if b \<noteq> 0 then Finite (a / b)
      else if a = 0 then NaN else if 0 < a then PosInfinity else NegInfinity)"

fun js_floor :: "number \<Rightarrow> number" where
  "js_floor (Finite a) = Finite (of_int \<lfloor>a\<rfloor>)"
| "js_floor n = n"

definition js_trunc :: "rat \<Rightarrow> int" where
  "js_trunc a = (if 0 \<le> a then \<lfloor>a\<rfloor> else \<lceil>a\<rceil>)"

text \<open>\<open>a % b\<close> for a finite \<open>a\<close>: the remainder has the sign of the dividend.\<close>

fun js_rem :: "rat \<Rightarrow> number \<Rightarrow> number" where
  "js_rem a (Finite b) = (if b = 0 then NaN else Finite (a - b * of_int (js_trunc (a / b))))"
| "js_rem a PosInfinity = Finite a"
| "js_rem a NegInfinity = Finite a"
| "js_rem a NaN = NaN"

fun js_sub :: "rat \<Rightarrow> number \<Rightarrow> number" where
  "js_sub a (Finite b) = Finite (a - b)"
| "js_sub a PosInfinity = NegInfinity"
| "js_sub a NegInfinity = PosInfinity"
| "js_sub a NaN = NaN"

fun js_quot :: "number \<Rightarrow> number \<Rightarrow> number" where
  "js_quot (Finite a) (Finite b) = js_div a b"
| "js_quot (Finite a) PosInfinity = Finite 0"
| "js_quot (Finite a) NegInfinity = Finite 0"
| "js_quot PosInfinity (Finite b) = (if 0 \<le> b then PosInfinity else NegInfinity)"
| "js_quot NegInfinity (Finite b) = (if 0 \<le> b then NegInfinity else PosInfinity)"
| "js_quot a b = NaN"

fun js_times :: "number \<Rightarrow> rat \<Rightarrow> number" where
  "js_times (Finite a) s = Finite (a * s)"
| "js_times PosInfinity s = (if s = 0 then NaN else if 0 < s then PosInfinity else NegInfinity)"
| "js_times NegInfinity s = (if s = 0 then NaN else if 0 < s then NegInfinity else PosInfinity)"
| "js_times NaN s = NaN"

text \<open>
  An exception unwinds to the caller, and what the method had assigned before the
  throw stays assigned. A method that can throw returns either \<open>Normal\<close> with the
  state it leaves, or \<open>Throw\<close> with the error and the state at the throw.
\<close>

datatype error = Error string | TypeError string

datatype 'a completion = Normal 'a | Throw error 'a

fun state_of :: "'a completion \<Rightarrow> 'a" where
  "state_of (Normal s) = s"
| "state_of (Throw e s) = s"


section \<open>EventHandler (src/util/EventHandler.ts)\<close>

datatype event_type =
    onmousedown | whilemousedown | onmouseup | onmousemove
  | onkeydown | whilekeydown | onkeyup
  | onresize | ontick | onrender

text \<open>
  The keys of \<open>queuedEventPayloads\<close>, in the order the object literal declares them;
  \<open>for (const type in this.queuedEventPayloads)\<close> visits them in this order.
\<close>

definition event_types :: "event_type list" where
  "event_types =
     [onmousedown, whilemousedown, onmouseup, onmousemove,
      onkeydown, whilekeydown, onkeyup, onresize, ontick, onrender]"

text \<open>
  A payload is a JavaScript object: every property is either present or
  \<open>undefined\<close> (\<open>None\<close>). The canvas listeners build mouse payloads
  \<open>{type, button, x, y}\<close>, key payloads \<open>{type, key}\<close> and resize payloads
  \<open>{type, width, height}\<close>; the engine builds \<open>{deltaTime}\<close> and
  \<open>{interpolationFactor}\<close>.
\<close>

record payload =
  ev_type :: "event_type option"
  ev_button :: "int option"
  ev_x :: "rat option"
  ev_y :: "rat option"
  ev_key :: "string option"
  ev_width :: "rat option"
  ev_height :: "rat option"
  ev_deltaTime :: "rat option"
  ev_interpolationFactor :: "number option"

definition empty_payload :: payload where
  "empty_payload =
     \<lparr>ev_type = None, ev_button = None, ev_x = None, ev_y = None, ev_key = None,
      ev_width = None, ev_height = None, ev_deltaTime = None,
      ev_interpolationFactor = None\<rparr>"

definition MouseEventPayload :: "event_type \<Rightarrow> int \<Rightarrow> rat \<Rightarrow> rat \<Rightarrow> payload" where
  "MouseEventPayload t b px py =
     empty_payload\<lparr>ev_type := Some t, ev_button := Some b, ev_x := Some px, ev_y := Some py\<rparr>"

definition KeyEventPayload :: "event_type \<Rightarrow> string \<Rightarrow> payload" where
  "KeyEventPayload t k = empty_payload\<lparr>ev_type := Some t, ev_key := Some k\<rparr>"

definition ResizeEventPayload :: "rat \<Rightarrow> rat \<Rightarrow> payload" where
  "ResizeEventPayload w h =
     empty_payload\<lparr>ev_type := Some onresize, ev_width := Some w, ev_height := Some h\<rparr>"

definition TickEventPayload :: "rat \<Rightarrow> payload" where
  "TickEventPayload dt = empty_payload\<lparr>ev_deltaTime := Some dt\<rparr>"

definition RenderEventPayload :: "number \<Rightarrow> payload" where
  "RenderEventPayload f = empty_payload\<lparr>ev_interpolationFactor := Some f\<rparr>"

text \<open>
  Callbacks are function values; \<open>indexOf\<close> compares them by reference. A callback
  is therefore modelled by its identity: the two listeners the engine registers for
  itself, and the user's listeners, numbered. What a user callback does when it is
  invoked is outside the model: \<open>dispatchQueue\<close> returns the invocations it makes, in
  order, and callbacks are taken not to call back into the handler while it dispatches.
\<close>

datatype callback = EngineResizeListener | EngineMouseDownListener | UserCallback nat

type_synonym invocation = "event_type \<times> callback \<times> payload"

record event_handler =
  callbackRegistry :: "event_type \<Rightarrow> callback list"
  queuedEventPayloads :: "event_type \<Rightarrow> payload list"
  enginePauseStateCallback :: "unit \<Rightarrow> bool"

text \<open>The field initialisers: empty registries, and \<open>() => false\<close> as the predicate.\<close>

definition EventHandler_new :: event_handler where
  "EventHandler_new =
     \<lparr>callbackRegistry = (\<lambda>_. []),
      queuedEventPayloads = (\<lambda>_. []),
      enginePauseStateCallback = (\<lambda>_. False)\<rparr>"

definition setEnginePauseStateCallback :: "(unit \<Rightarrow> bool) \<Rightarrow> event_handler \<Rightarrow> event_handler" where
  "setEnginePauseStateCallback cb h = h\<lparr>enginePauseStateCallback := cb\<rparr>"

definition registerEventCallback :: "event_type \<Rightarrow> callback \<Rightarrow> event_handler \<Rightarrow> event_handler" where
  "registerEventCallback type cb h =
     h\<lparr>callbackRegistry := (callbackRegistry h)(type := callbackRegistry h type @ [cb])\<rparr>"

text \<open>
  \<open>this.callbackRegistry[type].splice(this.callbackRegistry[type].indexOf(callback), 1)\<close>:
  the result of \<open>indexOf\<close> goes to \<open>splice\<close> unchecked.
\<close>

definition unregisterEventCallback :: "event_type \<Rightarrow> callback \<Rightarrow> event_handler \<Rightarrow> event_handler" where
  "unregisterEventCallback type cb h =
     h\<lparr>callbackRegistry := (callbackRegistry h)
          (type := js_splice (js_indexOf cb (callbackRegistry h type)) 1 (callbackRegistry h type))\<rparr>"

definition push_payload :: "event_type \<Rightarrow> payload \<Rightarrow> event_handler \<Rightarrow> event_handler" where
  "push_payload type p h =
     h\<lparr>queuedEventPayloads := (queuedEventPayloads h)(type := queuedEventPayloads h type @ [p])\<rparr>"

definition queueEvent :: "event_type \<Rightarrow> payload \<Rightarrow> event_handler \<Rightarrow> event_handler" where
  "queueEvent type p h =
     (if \<not> enginePauseStateCallback h () then h
      else case type of
        onmousedown \<Rightarrow>
          push_payload whilemousedown (p\<lparr>ev_type := Some whilemousedown\<rparr>) (push_payload type p h)
      | onmouseup \<Rightarrow>
          (let h1 = push_payload type p h
           in h1\<lparr>queuedEventPayloads := (queuedEventPayloads h1)
                (whilemousedown :=
                   filter (\<lambda>event. ev_button event \<noteq> ev_button p)
                     (queuedEventPayloads h1 whilemousedown))\<rparr>)
      | onkeydown \<Rightarrow>
          push_payload whilekeydown (p\<lparr>ev_type := Some whilekeydown\<rparr>) (push_payload type p h)
      | onkeyup \<Rightarrow>
          (let h1 = push_payload type p h
           in h1\<lparr>queuedEventPayloads := (queuedEventPayloads h1)
                (whilekeydown :=
                   filter (\<lambda>event. ev_key event \<noteq> ev_key p)
                     (queuedEventPayloads h1 whilekeydown))\<rparr>)
      | _ \<Rightarrow> push_payload type p h)"

text \<open>
  The clearing loop of \<open>dispatchQueue\<close>,
  \<open>for (let i = 0; i < queuedPayloads.length; i++) { if (level-triggered) continue;
  queuedPayloads.splice(i, 1); }\<close>: the array shrinks while \<open>i\<close> grows.
\<close>

function clearQueue :: "event_type \<Rightarrow> nat \<Rightarrow> payload list \<Rightarrow> payload list" where
  "clearQueue type i queuedPayloads =
     (if i < length queuedPayloads
      then (if type = whilemousedown \<or> type = whilekeydown
            then clearQueue type (i + 1) queuedPayloads
            else clearQueue type (i + 1) (js_splice (int i) 1 queuedPayloads))
      else queuedPayloads)"
  by pat_completeness auto
termination
  by (relation "measure (\<lambda>(type, i, q). length q - i)") (auto simp: js_splice_def)

declare clearQueue.simps [simp del]

text \<open>
  One round of the outer loop: every registered callback, in registration order,
  receives every queued payload, in queue order; then the clearing loop runs.
\<close>

definition dispatchType :: "event_type \<Rightarrow> invocation list \<times> event_handler \<Rightarrow> invocation list \<times> event_handler" where
  "dispatchType type = (\<lambda>(calls, h).
     (let registeredCallbacks = callbackRegistry h type;
          queuedPayloads = queuedEventPayloads h type
      in (calls @ concat (map (\<lambda>cb. map (\<lambda>p. (type, cb, p)) queuedPayloads) registeredCallbacks),
          h\<lparr>queuedEventPayloads := (queuedEventPayloads h)(type := clearQueue type 0 queuedPayloads)\<rparr>)))"

definition dispatchQueue :: "event_handler \<Rightarrow> invocation list \<times> event_handler" where
  "dispatchQueue h = fold dispatchType event_types ([], h)"

text \<open>The listeners the handler attaches to the canvas, and the resize observer.\<close>

datatype dom_event =
    mousedown int rat rat | mouseup int rat rat | mousemove int rat rat
  | keydown string | keyup string | resize rat rat

fun canvasEventHandler :: "dom_event \<Rightarrow> event_handler \<Rightarrow> event_handler" where
  "canvasEventHandler (mousedown b px py) h = queueEvent onmousedown (MouseEventPayload onmousedown b px py) h"
| "canvasEventHandler (mouseup b px py) h = queueEvent onmouseup (MouseEventPayload onmouseup b px py) h"
| "canvasEventHandler (mousemove b px py) h = queueEvent onmousemove (MouseEventPayload onmousemove b px py) h"
| "canvasEventHandler (keydown k) h = queueEvent onkeydown (KeyEventPayload onkeydown k) h"
| "canvasEventHandler (keyup k) h = queueEvent onkeyup (KeyEventPayload onkeyup k) h"
| "canvasEventHandler (resize w ht) h = queueEvent onresize (ResizeEventPayload w ht) h"


section \<open>Vector (math/vector)\<close>

text \<open>
  Modelled from the spec: the module \<open>math/vector\<close> is imported by the actor and
  the engine and is not among the sources. The spec gives \<open>Vector\<close> as an immutable
  pair \<open>{x, y}\<close> with value semantics, every operation returning a new instance;
  \<open>add\<close> and \<open>sub\<close> work by component, \<open>mult\<close> scales by a number, \<open>vec()\<close>
  is the zero vector.
\<close>

record 'n vector =
  vec_x :: 'n
  vec_y :: 'n

definition vec :: "'n \<Rightarrow> 'n \<Rightarrow> 'n vector" where
  "vec a b = \<lparr>vec_x = a, vec_y = b\<rparr>"

definition vec_add :: "rat vector \<Rightarrow> rat vector \<Rightarrow> rat vector" where
  "vec_add u v = vec (vec_x u + vec_x v) (vec_y u + vec_y v)"

definition vec_sub :: "rat vector \<Rightarrow> rat vector \<Rightarrow> rat vector" where
  "vec_sub u v = vec (vec_x u - vec_x v) (vec_y u - vec_y v)"

definition vec_mult :: "rat vector \<Rightarrow> rat \<Rightarrow> rat vector" where
  "vec_mult u s = vec (vec_x u * s) (vec_y u * s)"


section \<open>The canvas\<close>

text \<open>
  The 2-D context is the host's. The model keeps the sequence of calls made on it.
  The debug overlay prints two template strings; they are kept as the label and the
  numbers they interpolate.
\<close>

record image_bitmap =
  bitmap_width :: nat
  bitmap_height :: nat

datatype canvas_text = literal_text string | pos_text rat rat | vel_text rat rat

datatype canvas_op =
    ctx_save | ctx_restore
  | ctx_setTransform rat rat rat rat rat rat
  | ctx_scale rat rat
  | ctx_clearRect rat rat rat rat
  | ctx_fillRect rat rat number rat
  | ctx_strokeRect rat rat rat rat
  | ctx_fillStyle string
  | ctx_strokeStyle string
  | ctx_font string
  | ctx_textAlign string
  | ctx_fillText canvas_text rat rat
  | ctx_drawImage image_bitmap rat rat rat rat
  | ctx_drawImageFrom image_bitmap number number rat rat rat rat rat rat

type_synonym context2d = "canvas_op list"


section \<open>Actor (src/Objects/Actor.ts)\<close>

record texture =
  imageBitmap :: image_bitmap
  spriteSize :: "rat vector"
  frameCount :: int

record animation_keyframe =
  keyframe_index :: int
  duration :: rat

record animation_state =
  state_textureID :: string
  frames :: "animation_keyframe list"

record animation_manager =
  animations :: "string \<rightharpoonup> animation_state"
  animationID :: string
  animationFrame :: nat
  deltaSum :: rat

record texture_manager =
  textures :: "string \<rightharpoonup> texture"
  textureID :: string
  textureOffset :: "number vector"

record last_state =
  last_pos :: "rat vector"
  last_vel :: "rat vector"

text \<open>
  The user's \<open>draw\<close> callback is a field of the actor; \<open>None\<close> is a falsy value
  there. It receives the context and the interpolation factor, and is taken to draw
  only.
\<close>

record actor =
  willDispose :: bool
  isDebugEnabled :: bool
  doUpdate :: bool
  doDraw :: bool
  actor_ID :: string
  animationManager :: animation_manager
  textureManager :: texture_manager
  pos :: "rat vector"
  actor_size :: "rat vector"
  vel :: "rat vector"
  draw :: "(context2d \<Rightarrow> rat \<Rightarrow> context2d) option"
  lastState :: last_state

text \<open>
  The constructor, with the field initialisers: \<open>new Actor(ID, size, {pos, vel})\<close>.
  Its two assertions, on a missing ID and a missing size, are left to the caller.
\<close>

definition Actor_new :: "string \<Rightarrow> rat vector \<Rightarrow> rat vector \<Rightarrow> rat vector \<Rightarrow> actor" where
  "Actor_new ident sz p v =
     \<lparr>willDispose = False, isDebugEnabled = False, doUpdate = True, doDraw = True,
      actor_ID = ident,
      animationManager =
        \<lparr>animations = Map.empty, animationID = [], animationFrame = 0, deltaSum = 0\<rparr>,
      textureManager =
        \<lparr>textures = Map.empty, textureID = [], textureOffset = vec (Finite 0) (Finite 0)\<rparr>,
      pos = p, actor_size = sz, vel = v,
      draw = Some (\<lambda>ctx interp. ctx),
      lastState = \<lparr>last_pos = p, last_vel = v\<rparr>\<rparr>"

definition undefined_read :: error where
  "undefined_read = TypeError ''Cannot read properties of undefined''"

text \<open>
  \<open>updateAnimation\<close>. Reading \<open>.frames\<close> of a missing animation state throws
  before anything is assigned. \<open>(deltaSum += delta) >= currentFrame.duration\<close>
  assigns first and reads the frame's duration second, so a frame index out of range
  throws with \<open>deltaSum\<close> already increased. A missing texture throws after the
  frame has advanced.
\<close>

definition textureOffset_of :: "nat \<Rightarrow> texture \<Rightarrow> number vector" where
  "textureOffset_of frame tex =
     (let spriteRowCount = js_floor (js_div (of_nat (bitmap_width (imageBitmap tex))) (vec_x (spriteSize tex)));
          spriteColumnCount = js_floor (js_div (of_nat (bitmap_height (imageBitmap tex))) (vec_y (spriteSize tex)))
      in vec (js_times (js_rem (of_nat frame) spriteRowCount) (vec_x (spriteSize tex)))
             (js_times
                (js_quot (js_sub (of_nat frame) (js_rem (of_nat frame) spriteRowCount)) spriteColumnCount)
                (vec_y (spriteSize tex))))"

definition updateAnimation :: "rat \<Rightarrow> actor \<Rightarrow> actor completion" where
  "updateAnimation delta a =
     (let am = animationManager a
      in if animationID am = [] then Normal a
         else case animations am (animationID am) of
           None \<Rightarrow> Throw undefined_read a
         | Some animationState \<Rightarrow>
             (let a1 = a\<lparr>animationManager := am\<lparr>deltaSum := deltaSum am + delta\<rparr>\<rparr>
              in if \<not> animationFrame am < length (frames animationState)
                 then Throw undefined_read a1
                 else
                   (let currentFrame = frames animationState ! animationFrame am
                    in if deltaSum am + delta \<ge> duration currentFrame
                       then
                         (let frame' = (animationFrame am + 1) mod length (frames animationState);
                              a2 = a\<lparr>animationManager :=
                                     am\<lparr>deltaSum := deltaSum am + delta - duration currentFrame,
                                        animationFrame := frame'\<rparr>\<rparr>
                          in case textures (textureManager a2) (state_textureID animationState) of
                               None \<Rightarrow> Throw undefined_read a2
                             | Some tex \<Rightarrow>
                                 Normal (a2\<lparr>textureManager :=
                                   (textureManager a2)\<lparr>textureOffset := textureOffset_of frame' tex\<rparr>\<rparr>))
                       else Normal a1)))"

definition drawTexture :: "actor \<Rightarrow> context2d \<Rightarrow> context2d completion" where
  "drawTexture a ctx =
     (case textures (textureManager a) (textureID (textureManager a)) of
        None \<Rightarrow> Throw undefined_read ctx
      | Some tex \<Rightarrow>
          Normal (ctx @ [ctx_drawImage (imageBitmap tex)
                           (vec_x (pos a)) (vec_y (pos a))
                           (vec_x (actor_size a)) (vec_y (actor_size a))]))"

definition drawTextureFromMap :: "actor \<Rightarrow> context2d \<Rightarrow> context2d completion" where
  "drawTextureFromMap a ctx =
     (case animations (animationManager a) (animationID (animationManager a)) of
        None \<Rightarrow> Throw undefined_read ctx
      | Some animationState \<Rightarrow>
          (case textures (textureManager a) (state_textureID animationState) of
             None \<Rightarrow> Throw undefined_read ctx
           | Some tex \<Rightarrow>
               Normal (ctx @ [ctx_drawImageFrom (imageBitmap tex)
                                (vec_x (textureOffset (textureManager a)))
                                (vec_y (textureOffset (textureManager a)))
                                (vec_x (spriteSize tex)) (vec_y (spriteSize tex))
                                (vec_x (pos a)) (vec_y (pos a))
                                (vec_x (actor_size a)) (vec_y (actor_size a))])))"

definition drawDebug :: "actor \<Rightarrow> context2d \<Rightarrow> context2d" where
  "drawDebug a ctx =
     ctx @ [ctx_save,
            ctx_strokeStyle ''red'',
            ctx_strokeRect (vec_x (pos a)) (vec_y (pos a)) (vec_x (actor_size a)) (vec_y (actor_size a)),
            ctx_fillStyle ''white'',
            ctx_fillText (pos_text (vec_x (pos a)) (vec_y (pos a)))
              (vec_x (pos a)) (vec_y (pos a) - 12 * (0 + 1 / 2)),
            ctx_fillText (vel_text (vec_x (vel a)) (vec_y (vel a)))
              (vec_x (pos a)) (vec_y (pos a) - 12 * (1 + 1 / 2)),
            ctx_restore]"

text \<open>
  \<open>performDrawCalls\<close>. The first statement after the guard assigns the
  interpolated position to \<open>this.pos\<close>; everything after it draws.
\<close>

definition performDrawCalls :: "context2d \<Rightarrow> rat \<Rightarrow> actor \<Rightarrow> (actor \<times> context2d) completion" where
  "performDrawCalls ctx interp a =
     (if \<not> doDraw a then Normal (a, ctx)
      else
        (let a1 = a\<lparr>pos := vec_add (last_pos (lastState a))
                            (vec_mult (vec_sub (pos a) (last_pos (lastState a))) interp)\<rparr>;
             ctx1 = ctx @ [ctx_save]
         in case (if textureID (textureManager a1) \<noteq> [] then drawTexture a1 ctx1 else Normal ctx1) of
              Throw e ctx2 \<Rightarrow> Throw e (a1, ctx2)
            | Normal ctx2 \<Rightarrow>
                (case (if animationID (animationManager a1) \<noteq> []
                       then drawTextureFromMap a1 ctx2 else Normal ctx2) of
                   Throw e ctx3 \<Rightarrow> Throw e (a1, ctx3)
                 | Normal ctx3 \<Rightarrow>
                     (let ctx4 = (case draw a1 of None \<Rightarrow> ctx3 | Some f \<Rightarrow> f ctx3 interp);
                          ctx5 = ctx4 @ [ctx_restore]
                      in Normal (a1, if isDebugEnabled a1 then drawDebug a1 ctx5 else ctx5)))))"


section \<open>Rounding to a double\<close>

text \<open>
  \<open>fl64 q\<close> is the double nearest to the rational \<open>q\<close>, ties going to the even
  significand: 53 significant bits, subnormals below \<open>2^-1022\<close>; overflow to an
  infinity is left out. A finite double is the rational it denotes.
  The engine's methods take the rounding \<open>rnd\<close> that is applied to the result of each
  arithmetic operation; JavaScript's is \<open>fl64\<close>, and every statement about the
  engine's numbers is made of \<open>fl64\<close>.
\<close>

function bit_length :: "int \<Rightarrow> int" where
  "bit_length n = (if n \<le> 0 then 0 else 1 + bit_length (n div 2))"
  by pat_completeness auto
termination
  by (relation "measure nat") auto

declare bit_length.simps [simp del]

definition pow2 :: "int \<Rightarrow> rat" where
  "pow2 e = (if 0 \<le> e then 2 ^ nat e else 1 / 2 ^ nat (- e))"

definition round_half_even :: "rat \<Rightarrow> int" where
  "round_half_even q =
     (let f = \<lfloor>q\<rfloor>; r = q - of_int f
      in if r < 1 / 2 then f else if 1 / 2 < r then f + 1
         else if even f then f else f + 1)"

definition binade :: "rat \<Rightarrow> int" where
  "binade q =
     (let (n, d) = quotient_of \<bar>q\<bar>;
          k = bit_length n - bit_length d
      in if pow2 k \<le> \<bar>q\<bar> then k else k - 1)"

definition fl64 :: "rat \<Rightarrow> rat" where
  "fl64 q =
     (if q = 0 then 0
      else let e = max (binade q - 52) (- 1074)
           in of_int (round_half_even (q / pow2 e)) * pow2 e)"

fun rounded :: "(rat \<Rightarrow> rat) \<Rightarrow> number \<Rightarrow> number" where
  "rounded rnd (Finite q) = Finite (rnd q)"
| "rounded rnd n = n"


section \<open>Scene (elements/scene)\<close>

text \<open>
  Modelled from the spec: the class \<open>Scene\<close> is imported by the engine and is not
  among the sources. The engine reads a scene's \<open>ID\<close>, its three flags and the size
  of its actor collection, and calls \<open>start\<close>, \<open>tick\<close> and \<open>render\<close> on it.
  The fields are as the spec lists them; the three methods are parameters of the
  engine's model, each changing the scene it is called on (and \<open>render\<close> the canvas),
  and taken to return without throwing.
\<close>

record scene =
  scene_ID :: string
  scene_name :: string
  isTickEnabled :: bool
  isRenderEnabled :: bool
  isQueuedForDisposal :: bool
  actors :: "(string \<times> actor) list"

record scene_methods =
  scene_start :: "scene \<Rightarrow> scene"
  scene_tick :: "rat \<Rightarrow> scene \<Rightarrow> scene"
  scene_render :: "number \<Rightarrow> scene \<Rightarrow> context2d \<Rightarrow> scene \<times> context2d"


section \<open>JavaScript maps and truthiness\<close>

text \<open>
  A \<open>Map\<close> keeps its entries in insertion order, one entry a key: the list of its
  entries. \<open>new Map(entries)\<close> sets the entries one after the other.
\<close>

definition map_delete :: "'k \<Rightarrow> ('k \<times> 'v) list \<Rightarrow> ('k \<times> 'v) list" where
  "map_delete k m = filter (\<lambda>(k', v). k' \<noteq> k) m"

definition map_set :: "'k \<Rightarrow> 'v \<Rightarrow> ('k \<times> 'v) list \<Rightarrow> ('k \<times> 'v) list" where
  "map_set k v m =
     (if k \<in> fst ` set m then map (\<lambda>(k', v'). if k' = k then (k, v) else (k', v')) m
      else m @ [(k, v)])"

definition new_Map :: "('k \<times> 'v) list \<Rightarrow> ('k \<times> 'v) list" where
  "new_Map entries = fold (\<lambda>(k, v). map_set k v) entries []"

text \<open>The values a filter predicate of the engine can compute, and which of them are truthy.\<close>

datatype js_value = js_undefined | js_boolean bool

fun truthy :: "js_value \<Rightarrow> bool" where
  "truthy js_undefined = False"
| "truthy (js_boolean b) = b"

text \<open>\<open>Array.prototype.filter\<close> with a predicate that changes the state it runs in.\<close>

fun filter_in_state :: "('a \<Rightarrow> 's \<Rightarrow> bool \<times> 's) \<Rightarrow> 'a list \<Rightarrow> 's \<Rightarrow> 'a list \<times> 's" where
  "filter_in_state keep [] st = ([], st)"
| "filter_in_state keep (x # xs) st =
     (let (b, st1) = keep x st; (ys, st2) = filter_in_state keep xs st1
      in (if b then x # ys else ys, st2))"


section \<open>Engine (the class \<open>Engine\<close>)\<close>

text \<open>
  The host's part of the canvas element: the computed style size and the device pixel
  ratio that \<open>fixDPI\<close> reads, and the size attributes it writes.
\<close>

record canvas_element =
  devicePixelRatio :: rat
  style_width :: rat
  style_height :: rat
  attr_width :: rat
  attr_height :: rat

datatype scene_call = tick_call string rat | render_call string number

text \<open>
  The engine's fields. Three fields are not the class's: \<open>renderCalls\<close> lists the
  argument of every call of \<open>this.render\<close>, \<open>sceneCalls\<close> the calls of a scene's
  \<open>tick\<close> and \<open>render\<close>, \<open>callbackCalls\<close> the invocations of the user's event
  callbacks, each in the order the calls are made. \<open>lastClickPosition\<close> is the
  parameter GUI's field, which the GUI resets when it has rendered; the GUI's drawing
  of the engine's FPS, runtime and lag needs the host's text metrics and is left out.
  The fields \<open>camera\<close> and \<open>updateID\<close> are never read and are left out too.
\<close>

record engine =
  canvasElement :: canvas_element
  ctx :: context2d
  eventHandler :: event_handler
  scenes :: "(string \<times> scene) list"
  preloadedActorCount :: nat
  canvasSize :: "rat vector"
  engineRuntimeMilliseconds :: rat
  engineStartTimestamp :: rat
  FPS :: number
  isPaused :: bool
  isStarted :: bool
  isPreloaded :: bool
  totalActorCount :: nat
  lag :: rat
  maxUpdatesPerFrame :: nat
  previousUpdateTimestamp :: rat
  targetTickDurationMilliseconds :: rat
  updatesSinceEngineStart :: nat
  canvasScale :: rat
  lastClickPosition :: "rat option vector"
  renderCalls :: "number list"
  sceneCalls :: "scene_call list"
  callbackCalls :: "invocation list"

definition TARGET_FPS :: rat where
  "TARGET_FPS = 60"

definition MAX_UPDATES_PER_FRAME :: nat where
  "MAX_UPDATES_PER_FRAME = 240"

definition fixDPI :: "engine \<Rightarrow> rat vector \<times> engine" where
  "fixDPI e =
     (let scale = devicePixelRatio (canvasElement e);
          width = style_width (canvasElement e) * scale;
          height = style_height (canvasElement e) * scale
      in (vec width height,
          e\<lparr>canvasScale := scale,
            canvasElement := (canvasElement e)\<lparr>attr_width := width, attr_height := height\<rparr>\<rparr>))"

text \<open>
  The constructor, with the field initialisers. The initialiser
  \<open>1000 / TARGET_FPS\<close> is evaluated once, in doubles.
\<close>

definition Engine_new :: "canvas_element \<Rightarrow> engine" where
  "Engine_new canvas =
     (let e = \<lparr>canvasElement = canvas, ctx = [], eventHandler = EventHandler_new, scenes = [],
                preloadedActorCount = 0, canvasSize = vec 0 0,
                engineRuntimeMilliseconds = 0, engineStartTimestamp = 0, FPS = Finite 0,
                isPaused = False, isStarted = False, isPreloaded = False,
                totalActorCount = 0, lag = 0,
                maxUpdatesPerFrame = MAX_UPDATES_PER_FRAME,
                previousUpdateTimestamp = 0,
                targetTickDurationMilliseconds = fl64 (1000 / TARGET_FPS),
                updatesSinceEngineStart = 0, canvasScale = 1,
                lastClickPosition = vec (Some 0) (Some 0),
                renderCalls = [], sceneCalls = [], callbackCalls = []\<rparr>;
          (size, e1) = fixDPI e
      in e1\<lparr>canvasSize := size\<rparr>)"

text \<open>
  Modelled from the spec: \<open>setIsEnginePaused\<close>, which \<open>updatePauseState\<close>
  calls, is missing from the handler under \<open>util/EventHandler.ts\<close>, which has
  \<open>setEnginePauseStateCallback\<close> instead. By the spec the handler's predicate
  reports whether the engine is running, and a paused engine is not.
\<close>

definition setIsEnginePaused :: "bool \<Rightarrow> event_handler \<Rightarrow> event_handler" where
  "setIsEnginePaused paused h = setEnginePauseStateCallback (\<lambda>_. \<not> paused) h"

text \<open>
  Modelled from the spec: \<open>addListener\<close>, which \<open>start\<close> calls, is missing from
  the handler under \<open>util/EventHandler.ts\<close>, which has \<open>registerEventCallback\<close>
  instead. By the spec registering appends the callback to the subscribers of the type.
\<close>

definition addListener :: "event_type \<Rightarrow> callback \<Rightarrow> event_handler \<Rightarrow> event_handler" where
  "addListener = registerEventCallback"

text \<open>
  Modelled from the spec: \<open>assert\<close> of \<open>util/asserts\<close>, which the engine and the
  actor import, is not among the sources. By the spec a violated contract is reported
  at once by a thrown error that carries the descriptive message; \<open>start\<close> documents
  the same with \<open>@throws {Error} if the start function has already been called\<close>.
  \<open>None\<close> is the assertion passing.
\<close>

definition js_assert :: "bool \<Rightarrow> string \<Rightarrow> error option" where
  "js_assert condition message = (if condition then None else Some (Error message))"

definition updatePauseState :: "bool \<Rightarrow> engine \<Rightarrow> engine" where
  "updatePauseState paused e =
     e\<lparr>isPaused := paused, eventHandler := setIsEnginePaused paused (eventHandler e)\<rparr>"

definition pause :: "engine \<Rightarrow> engine" where
  "pause = updatePauseState True"

definition resume :: "engine \<Rightarrow> engine" where
  "resume = updatePauseState False"

text \<open>
  \<open>start\<close>, with \<open>now\<close> the value of \<open>performance.now()\<close>. The method is
  asynchronous; the model runs it in one piece, the preload of the scenes included, so
  the frames that the browser delivers while the preload is awaited are frames of the
  engine before \<open>start\<close>. Focusing the canvas and attaching the DOM listeners are the
  host's and are left out.
\<close>

definition start :: "scene_methods \<Rightarrow> rat \<Rightarrow> engine \<Rightarrow> engine completion" where
  "start sm now e =
     (case js_assert (\<not> isStarted e) ''Engine has already been started.'' of
        Some err \<Rightarrow> Throw err e
      | None \<Rightarrow>
          (let e1 = snd (fixDPI e);
               e2 = e1\<lparr>eventHandler := addListener onresize EngineResizeListener (eventHandler e1)\<rparr>;
               e3 = e2\<lparr>eventHandler := addListener onmousedown EngineMouseDownListener (eventHandler e2)\<rparr>;
               e4 = e3\<lparr>totalActorCount := foldl (\<lambda>acc (k, s). acc + length (actors s)) 0 (scenes e3)\<rparr>;
               e5 = e4\<lparr>scenes := map (\<lambda>(k, s). (k, scene_start sm s)) (scenes e4)\<rparr>;
               e6 = e5\<lparr>isPreloaded := True, isStarted := True, engineStartTimestamp := now\<rparr>
           in Normal (updatePauseState False e6)))"

text \<open>
  What the engine's own two listeners do when the handler invokes them; an invocation
  of a user's callback is recorded.
\<close>

fun invoke :: "invocation \<Rightarrow> engine \<Rightarrow> engine" where
  "invoke (type, EngineResizeListener, p) e = (let (size, e1) = fixDPI e in e1\<lparr>canvasSize := size\<rparr>)"
| "invoke (type, EngineMouseDownListener, p) e = e\<lparr>lastClickPosition := vec (ev_x p) (ev_y p)\<rparr>"
| "invoke (type, UserCallback k, p) e = e\<lparr>callbackCalls := callbackCalls e @ [(type, UserCallback k, p)]\<rparr>"

definition engine_dispatchQueue :: "engine \<Rightarrow> engine" where
  "engine_dispatchQueue e =
     (let (calls, h) = dispatchQueue (eventHandler e)
      in fold invoke calls (e\<lparr>eventHandler := h\<rparr>))"

definition tick_scenes :: "scene_methods \<Rightarrow> rat \<Rightarrow> engine \<Rightarrow> engine" where
  "tick_scenes sm dt e =
     e\<lparr>scenes := map (\<lambda>(k, s). if isTickEnabled s then (k, scene_tick sm dt s) else (k, s)) (scenes e),
       sceneCalls := sceneCalls e
         @ map (\<lambda>(k, s). tick_call (scene_ID s) dt) (filter (\<lambda>(k, s). isTickEnabled s) (scenes e))\<rparr>"

text \<open>The body of the \<open>while\<close> loop of \<open>update\<close>, up to the test of the breaker.\<close>

definition tick_once :: "(rat \<Rightarrow> rat) \<Rightarrow> scene_methods \<Rightarrow> engine \<Rightarrow> engine" where
  "tick_once rnd sm e =
     (let e1 = e\<lparr>eventHandler :=
                  queueEvent ontick (TickEventPayload (targetTickDurationMilliseconds e)) (eventHandler e)\<rparr>;
          e2 = tick_scenes sm (targetTickDurationMilliseconds e1) e1;
          e3 = engine_dispatchQueue e2
      in e3\<lparr>lag := rnd (lag e3 - targetTickDurationMilliseconds e3),
            updatesSinceEngineStart := updatesSinceEngineStart e3 + 1\<rparr>)"

text \<open>
  The loop. \<open>maxUpdatesPerFrame\<close> is a readonly field; the loop takes its value as
  an argument. \<open>cycleUpdateCount\<close> is the local counter.
\<close>

function tick_loop :: "(rat \<Rightarrow> rat) \<Rightarrow> scene_methods \<Rightarrow> nat \<Rightarrow> nat \<Rightarrow> engine \<Rightarrow> engine" where
  "tick_loop rnd sm maxUpdates cycleUpdateCount e =
     (if lag e \<ge> targetTickDurationMilliseconds e \<and> \<not> isPaused e
      then (let e1 = tick_once rnd sm e
            in if cycleUpdateCount + 1 \<ge> maxUpdates then e1\<lparr>lag := 0\<rparr>
               else tick_loop rnd sm maxUpdates (cycleUpdateCount + 1) e1)
      else e)"
  by pat_completeness auto
termination
  by (relation "measure (\<lambda>(rnd, sm, maxUpdates, cycleUpdateCount, e). maxUpdates - cycleUpdateCount)") auto

declare tick_loop.simps [simp del]

definition renderPreloadScreen :: "engine \<Rightarrow> engine" where
  "renderPreloadScreen e =
     (let w = vec_x (canvasSize e); h = vec_y (canvasSize e)
      in e\<lparr>ctx := ctx e @
           [ctx_fillStyle ''black'',
            ctx_fillRect 0 0 (Finite w) h,
            ctx_font ''30px monospace'',
            ctx_textAlign ''center'',
            ctx_fillStyle ''white'',
            ctx_fillText (literal_text ''LOADING...'') (w / 2) (h / 2),
            ctx_strokeStyle ''white'',
            ctx_strokeRect (w / 2 - 200) (h / 2 + 32) 400 16,
            ctx_fillRect (w / 2 - 200) (h / 2 + 32)
              (js_div (400 * of_nat (preloadedActorCount e)) (of_nat (totalActorCount e))) 16]\<rparr>)"

fun render_scenes :: "scene_methods \<Rightarrow> number \<Rightarrow> (string \<times> scene) list \<Rightarrow> context2d
                      \<Rightarrow> (string \<times> scene) list \<times> context2d" where
  "render_scenes sm f [] c = ([], c)"
| "render_scenes sm f ((k, s) # rest) c =
     (if isRenderEnabled s
      then (let (s1, c1) = scene_render sm f s c; (rest1, c2) = render_scenes sm f rest c1
            in ((k, s1) # rest1, c2))
      else (let (rest1, c2) = render_scenes sm f rest c in ((k, s) # rest1, c2)))"

definition render :: "scene_methods \<Rightarrow> number \<Rightarrow> engine \<Rightarrow> engine" where
  "render sm interpolationFactor e =
     (let e1 = e\<lparr>renderCalls := renderCalls e @ [interpolationFactor],
                 ctx := ctx e @ [ctx_setTransform 1 0 0 1 0 0,
                                 ctx_scale (canvasScale e) (canvasScale e)]\<rparr>;
          e2 = (if \<not> isPreloaded e1 then renderPreloadScreen e1 else e1)
      in if isPaused e2 \<or> \<not> isPreloaded e2 then e2
         else
           (let c = ctx e2 @ [ctx_clearRect 0 0 (vec_x (canvasSize e2)) (vec_y (canvasSize e2))];
                (scenes1, c1) = render_scenes sm interpolationFactor (scenes e2) c;
                e3 = e2\<lparr>ctx := c1, scenes := scenes1,
                        sceneCalls := sceneCalls e2
                          @ map (\<lambda>(k, s). render_call (scene_ID s) interpolationFactor)
                              (filter (\<lambda>(k, s). isRenderEnabled s) (scenes e2))\<rparr>
            in e3\<lparr>eventHandler :=
                    queueEvent onrender (RenderEventPayload interpolationFactor) (eventHandler e3),
                  lastClickPosition := vec (Some 0) (Some 0)\<rparr>))"

text \<open>
  \<open>removeScene\<close> is an arrow function with a block body and no \<open>return\<close>: it
  deletes the entry and evaluates to \<open>undefined\<close>.
\<close>

definition removeScene :: "scene \<Rightarrow> engine \<Rightarrow> js_value \<times> engine" where
  "removeScene s e = (js_undefined, e\<lparr>scenes := map_delete (scene_ID s) (scenes e)\<rparr>)"

text \<open>
  The predicate of the sweep,
  \<open>([key, scene]) => !(scene.isQueuedForDisposal && this.removeScene(scene))\<close>:
  \<open>&&\<close> evaluates its right operand only when the left one is truthy, and is then
  the value of the right operand.
\<close>

definition sweep_keeps :: "string \<times> scene \<Rightarrow> engine \<Rightarrow> bool \<times> engine" where
  "sweep_keeps entry e =
     (let s = snd entry
      in if isQueuedForDisposal s
         then (let (v, e1) = removeScene s e in (\<not> truthy v, e1))
         else (\<not> truthy (js_boolean False), e))"

text \<open>
  The sweep: \<open>this.scenes = new Map(Array.from(this.scenes.entries()).filter(...))\<close>.
  The entries are copied to an array before the filter runs.
\<close>

definition sweep :: "engine \<Rightarrow> engine" where
  "sweep e =
     (let entries = scenes e;
          (kept, e1) = filter_in_state sweep_keeps entries e
      in e1\<lparr>scenes := new_Map kept\<rparr>)"

text \<open>
  \<open>update\<close>, one animation frame. Scheduling the next frame is the host's; the
  frames are the successive calls of \<open>update\<close> with the host's timestamps.
\<close>

definition update :: "(rat \<Rightarrow> rat) \<Rightarrow> scene_methods \<Rightarrow> rat \<Rightarrow> engine \<Rightarrow> engine" where
  "update rnd sm timestamp e =
     (if \<not> isPreloaded e then render sm (Finite 0) e
      else
        (let delta = rnd (timestamp - previousUpdateTimestamp e);
             e1 = e\<lparr>previousUpdateTimestamp := timestamp,
                     lag := rnd (lag e + delta),
                     engineRuntimeMilliseconds := rnd (engineRuntimeMilliseconds e + delta),
                     FPS := rounded rnd (js_div 1000 delta)\<rparr>;
             e2 = tick_loop rnd sm (maxUpdatesPerFrame e1) 0 e1;
             e3 = render sm
                    (rounded rnd (js_div (lag e2) (targetTickDurationMilliseconds e2))) e2
         in sweep e3))"

text \<open>
  The spec's vocabulary for one frame: the ticks the frame executes, counted by the
  engine's own counter \<open>updatesSinceEngineStart\<close>, and whether the breaker fires,
  which it does when the local counter reaches \<open>maxUpdatesPerFrame\<close>, that is when
  the frame has executed that many ticks.
\<close>

definition ticks_executed :: "(rat \<Rightarrow> rat) \<Rightarrow> scene_methods \<Rightarrow> rat \<Rightarrow> engine \<Rightarrow> nat" where
  "ticks_executed rnd sm timestamp e =
     updatesSinceEngineStart (update rnd sm timestamp e) - updatesSinceEngineStart e"

definition breaker_fired :: "(rat \<Rightarrow> rat) \<Rightarrow> scene_methods \<Rightarrow> rat \<Rightarrow> engine \<Rightarrow> bool" where
  "breaker_fired rnd sm timestamp e \<longleftrightarrow>
     0 < ticks_executed rnd sm timestamp e
     \<and> maxUpdatesPerFrame e \<le> ticks_executed rnd sm timestamp e"

text \<open>The fields that pace the loop, and the record of the render calls.\<close>

definition pacing :: "engine \<Rightarrow> rat \<times> rat \<times> bool \<times> bool \<times> nat \<times> nat \<times> number list" where
  "pacing e = (lag e, targetTickDurationMilliseconds e, isPaused e, isPreloaded e,
               maxUpdatesPerFrame e, updatesSinceEngineStart e, renderCalls e)"

text \<open>
  The \<open>while\<close> loop of \<open>update\<close> as it acts on \<open>lag\<close> and the local counter of
  an engine that is not paused: the test and the breaker read nothing else. It returns
  the \<open>lag\<close> and the counter the loop ends with; \<open>tick_loop\<close> is shown below to
  leave exactly these in the engine.
\<close>

function lag_loop :: "(rat \<Rightarrow> rat) \<Rightarrow> rat \<Rightarrow> nat \<Rightarrow> nat \<Rightarrow> rat \<Rightarrow> rat \<times> nat" where
  "lag_loop rnd T maxUpdates cycleUpdateCount l =
     (if l \<ge> T
      then (if cycleUpdateCount + 1 \<ge> maxUpdates then (0, cycleUpdateCount + 1)
            else lag_loop rnd T maxUpdates (cycleUpdateCount + 1) (rnd (l - T)))
      else (l, cycleUpdateCount))"
  by pat_completeness auto
termination
  by (relation "measure (\<lambda>(rnd, T, maxUpdates, cycleUpdateCount, l). maxUpdates - cycleUpdateCount)") auto

declare lag_loop.simps [simp del]


section \<open>Example states\<close>

text \<open>
  An actor that a tick has moved from the origin to \<open>(10, 20)\<close>, its
  \<open>lastState\<close> still at the origin; and an actor that plays a three-frame
  animation, 100 ms a frame, from a sheet of three 32 by 32 sprites.
\<close>

definition moved_actor :: actor where
  "moved_actor = (Actor_new ''a'' (vec 1 1) (vec 0 0) (vec 0 0))\<lparr>pos := vec 10 20\<rparr>"

definition walk_cycle :: animation_state where
  "walk_cycle =
     \<lparr>state_textureID = ''sheet'',
      frames = [\<lparr>keyframe_index = 0, duration = 100\<rparr>,
                \<lparr>keyframe_index = 1, duration = 100\<rparr>,
                \<lparr>keyframe_index = 2, duration = 100\<rparr>]\<rparr>"

definition sprite_sheet :: texture where
  "sprite_sheet =
     \<lparr>imageBitmap = \<lparr>bitmap_width = 96, bitmap_height = 32\<rparr>,
      spriteSize = vec 32 32, frameCount = 3\<rparr>"

definition walker :: actor where
  "walker =
     (Actor_new ''walker'' (vec 32 32) (vec 0 0) (vec 0 0))
       \<lparr>animationManager :=
          \<lparr>animations = [''walk'' \<mapsto> walk_cycle], animationID = ''walk'',
           animationFrame = 0, deltaSum = 0\<rparr>,
        textureManager :=
          \<lparr>textures = [''sheet'' \<mapsto> sprite_sheet], textureID = [],
           textureOffset = vec (Finite 0) (Finite 0)\<rparr>\<rparr>"

text \<open>
  An engine on an 800 by 600 canvas, started, with scenes whose methods change
  nothing; the same engine paused; and the same engine holding one scene that is
  flagged for disposal.
\<close>

definition plain_canvas :: canvas_element where
  "plain_canvas = \<lparr>devicePixelRatio = 1, style_width = 800, style_height = 600,
                    attr_width = 300, attr_height = 150\<rparr>"

definition still_scenes :: scene_methods where
  "still_scenes = \<lparr>scene_start = (\<lambda>s. s), scene_tick = (\<lambda>dt s. s),
                    scene_render = (\<lambda>f s c. (s, c))\<rparr>"

definition running_engine :: engine where
  "running_engine = state_of (start still_scenes 0 (Engine_new plain_canvas))"

definition sole_scene :: scene where
  "sole_scene =
     \<lparr>scene_ID = ''s'', scene_name = ''level'', isTickEnabled = True, isRenderEnabled = True,
      isQueuedForDisposal = True, actors = []\<rparr>"

definition disposing_engine :: engine where
  "disposing_engine = running_engine\<lparr>scenes := [(''s'', sole_scene)]\<rparr>"


section \<open>Properties of the EventHandler\<close>

lemma index_from_absent: "a \<notin> set xs \<Longrightarrow> index_from a xs i = - 1"
  by (induction xs arbitrary: i) auto

lemma js_indexOf_absent: "a \<notin> set xs \<Longrightarrow> js_indexOf a xs = - 1"
  by (simp add: js_indexOf_def index_from_absent)

lemma js_splice_last: "js_splice (- 1) 1 xs = butlast xs"
proof (cases xs rule: rev_cases)
  case Nil
  then show ?thesis by (simp add: js_splice_def)
next
  case (snoc ys y)
  have "js_splice (- 1) 1 (ys @ [y]) = take (length ys) (ys @ [y]) @ drop (length ys + 1) (ys @ [y])"
    unfolding js_splice_def Let_def by simp
  with snoc show ?thesis by simp
qed

lemma unregister_absent_is_butlast:
  "cb \<notin> set (callbackRegistry h type) \<Longrightarrow>
   callbackRegistry (unregisterEventCallback type cb h) type = butlast (callbackRegistry h type)"
  by (simp add: unregisterEventCallback_def js_indexOf_absent js_splice_last)

lemma index_from_present:
  "a \<in> set xs \<Longrightarrow> index_from a xs i = i + int (length (takeWhile (\<lambda>b. b \<noteq> a) xs))"
  by (induction xs arbitrary: i) auto

lemma takeWhile_shorter:
  "a \<in> set xs \<Longrightarrow> length (takeWhile (\<lambda>b. b \<noteq> a) xs) < length xs"
  by (induction xs) auto

lemma remove1_takeWhile:
  "a \<in> set xs \<Longrightarrow>
   remove1 a xs = take (length (takeWhile (\<lambda>b. b \<noteq> a) xs)) xs
                  @ drop (length (takeWhile (\<lambda>b. b \<noteq> a) xs) + 1) xs"
  by (induction xs) auto

lemma js_splice_inside:
  "k < length xs \<Longrightarrow> js_splice (int k) 1 xs = take k xs @ drop (k + 1) xs"
  unfolding js_splice_def Let_def
  by (simp add: nat_add_distrib)

lemma unregister_present_is_remove1:
  assumes "cb \<in> set (callbackRegistry h type)"
  shows "callbackRegistry (unregisterEventCallback type cb h) type = remove1 cb (callbackRegistry h type)"
proof -
  let ?reg = "callbackRegistry h type"
  let ?k = "length (takeWhile (\<lambda>b. b \<noteq> cb) ?reg)"
  have k: "?k < length ?reg"
    using assms by (rule takeWhile_shorter)
  have "js_indexOf cb ?reg = int ?k"
    using assms by (simp add: js_indexOf_def index_from_present)
  then have "js_splice (js_indexOf cb ?reg) 1 ?reg = take ?k ?reg @ drop (?k + 1) ?reg"
    using k by (simp add: js_splice_inside)
  then show ?thesis
    using assms by (simp add: unregisterEventCallback_def remove1_takeWhile)
qed

lemma clearQueue_level_triggered:
  "type = whilemousedown \<or> type = whilekeydown \<Longrightarrow> clearQueue type i q = q"
proof (induction type i q rule: clearQueue.induct)
  case (1 type i q)
  then show ?case by (subst clearQueue.simps) auto
qed

lemma length_js_splice_inside:
  "i < length q \<Longrightarrow> length (js_splice (int i) 1 q) = length q - 1"
  by (simp add: js_splice_inside)

lemma length_clearQueue:
  "type \<noteq> whilemousedown \<Longrightarrow> type \<noteq> whilekeydown \<Longrightarrow>
   length (clearQueue type i q) = (if i \<le> length q then i + (length q - i) div 2 else length q)"
proof (induction type i q rule: clearQueue.induct)
  case (1 type i q)
  show ?case
  proof (cases "i < length q")
    case True
    have "length (clearQueue type (i + 1) (js_splice (int i) 1 q))
          = (if i + 1 \<le> length q - 1 then i + 1 + (length q - 1 - (i + 1)) div 2 else length q - 1)"
      using 1 True by (simp add: length_js_splice_inside)
    moreover have "clearQueue type i q = clearQueue type (i + 1) (js_splice (int i) 1 q)"
      using 1(3,4) True by (subst clearQueue.simps) simp
    ultimately show ?thesis using True by (auto split: if_splits)
  next
    case False
    then show ?thesis by (subst clearQueue.simps) auto
  qed
qed

text \<open>
  What the clearing loop leaves of a queue that is not level-triggered: half of it,
  rounded down. Only a queue of at most one payload comes out empty.
\<close>

lemma clearQueue_leaves_half:
  "type \<noteq> whilemousedown \<Longrightarrow> type \<noteq> whilekeydown \<Longrightarrow>
   length (clearQueue type 0 q) = length q div 2"
  by (simp add: length_clearQueue)

lemma queueEvent_rejected: "\<not> enginePauseStateCallback h () \<Longrightarrow> queueEvent type p h = h"
  by (simp add: queueEvent_def)

lemma fold_queueEvent_rejected:
  "\<not> enginePauseStateCallback h () \<Longrightarrow> fold (\<lambda>(type, p). queueEvent type p) events h = h"
  by (induction events) (auto simp: queueEvent_rejected)

text \<open>
  C4. While the predicate installed in the handler answers \<open>false\<close> (the engine is
  not running), \<open>queueEvent\<close> returns at once: the handler after the call is the
  handler before it, for every event type and payload, and so is the handler after
  any sequence of such calls. No queue of any type gains or loses an entry.
\<close>

theorem queueEvent_noop_when_not_running:
  assumes "\<not> enginePauseStateCallback h ()"
  shows "queueEvent type p h = h
       \<and> fold (\<lambda>(type, p). queueEvent type p) events h = h
       \<and> (\<forall>t. queuedEventPayloads (fold (\<lambda>(type, p). queueEvent type p) events h) t
                = queuedEventPayloads h t)"
  using assms by (simp add: queueEvent_rejected fold_queueEvent_rejected)

theorem queueEvent_noop_when_not_running_witness:
  "\<not> enginePauseStateCallback EventHandler_new ()
   \<and> queueEvent onkeydown (KeyEventPayload onkeydown ''a'') EventHandler_new = EventHandler_new
   \<and> fold (\<lambda>(type, p). queueEvent type p)
        [(onmousedown, MouseEventPayload onmousedown 0 1 2), (ontick, TickEventPayload 5)]
        EventHandler_new = EventHandler_new"
  using queueEvent_noop_when_not_running
          [of EventHandler_new onkeydown "KeyEventPayload onkeydown ''a''"
              "[(onmousedown, MouseEventPayload onmousedown 0 1 2), (ontick, TickEventPayload 5)]"]
  by (simp add: EventHandler_new_def)

text \<open>
  C6, at the input where it fails. One callback is registered for \<open>ontick\<close>;
  unregistering a different callback, one that was never registered, empties the list:
  \<open>indexOf\<close> answers \<open>-1\<close> and \<open>splice(-1, 1)\<close> removes the last element.
\<close>

theorem unregister_absent_callback_removes_last:
  "callbackRegistry
     (unregisterEventCallback ontick (UserCallback 1)
        (registerEventCallback ontick (UserCallback 0) EventHandler_new)) ontick = []
   \<and> callbackRegistry (registerEventCallback ontick (UserCallback 0) EventHandler_new) ontick
       = [UserCallback 0]"
  by (simp add: unregisterEventCallback_def registerEventCallback_def EventHandler_new_def
        js_indexOf_def js_splice_def)

text \<open>
  C7. When the predicate lets events through: \<open>onkeydown\<close> appends the payload to
  its own queue and a copy retyped \<open>whilekeydown\<close> to the \<open>whilekeydown\<close> queue,
  whatever that queue holds already, so two \<open>onkeydown\<close> for the same key add two
  entries for that key; \<open>onkeyup\<close> keeps in the \<open>whilekeydown\<close> queue exactly the
  entries whose key differs, so none for that key is left. The same for
  \<open>onmousedown\<close>, \<open>onmouseup\<close> and \<open>whilemousedown\<close>, by button.
\<close>

theorem level_triggered_queueing:
  assumes "enginePauseStateCallback h ()"
  shows "queuedEventPayloads (queueEvent onkeydown p h) whilekeydown
           = queuedEventPayloads h whilekeydown @ [p\<lparr>ev_type := Some whilekeydown\<rparr>]
       \<and> queuedEventPayloads (queueEvent onmousedown p h) whilemousedown
           = queuedEventPayloads h whilemousedown @ [p\<lparr>ev_type := Some whilemousedown\<rparr>]
       \<and> length (filter (\<lambda>e. ev_key e = ev_key p)
             (queuedEventPayloads (queueEvent onkeydown p (queueEvent onkeydown p h)) whilekeydown))
           = length (filter (\<lambda>e. ev_key e = ev_key p) (queuedEventPayloads h whilekeydown)) + 2
       \<and> queuedEventPayloads (queueEvent onkeyup p h) whilekeydown
           = filter (\<lambda>e. ev_key e \<noteq> ev_key p) (queuedEventPayloads h whilekeydown)
       \<and> queuedEventPayloads (queueEvent onmouseup p h) whilemousedown
           = filter (\<lambda>e. ev_button e \<noteq> ev_button p) (queuedEventPayloads h whilemousedown)
       \<and> (\<forall>e \<in> set (queuedEventPayloads (queueEvent onkeyup p h) whilekeydown).
             ev_key e \<noteq> ev_key p)
       \<and> (\<forall>e \<in> set (queuedEventPayloads (queueEvent onmouseup p h) whilemousedown).
             ev_button e \<noteq> ev_button p)"
  using assms by (simp add: queueEvent_def push_payload_def)

text \<open>
  The scenario of C7 on the canvas listeners: two \<open>keydown\<close> of the key a, with
  no \<open>keyup\<close> between them, leave two \<open>whilekeydown\<close> entries for a; the
  \<open>keyup\<close> of a then leaves none.
\<close>

theorem level_triggered_queueing_witness:
  "enginePauseStateCallback (setEnginePauseStateCallback (\<lambda>_. True) EventHandler_new) ()
   \<and> queuedEventPayloads
        (canvasEventHandler (keydown ''a'')
          (canvasEventHandler (keydown ''a'')
            (setEnginePauseStateCallback (\<lambda>_. True) EventHandler_new))) whilekeydown
       = [KeyEventPayload whilekeydown ''a'', KeyEventPayload whilekeydown ''a'']
   \<and> queuedEventPayloads
        (canvasEventHandler (keyup ''a'')
          (canvasEventHandler (keydown ''a'')
            (canvasEventHandler (keydown ''a'')
              (setEnginePauseStateCallback (\<lambda>_. True) EventHandler_new)))) whilekeydown
       = []"
  using level_triggered_queueing
          [of "setEnginePauseStateCallback (\<lambda>_. True) EventHandler_new"
              "KeyEventPayload onkeydown ''a''"]
        level_triggered_queueing
          [of "canvasEventHandler (keydown ''a'')
                 (setEnginePauseStateCallback (\<lambda>_. True) EventHandler_new)"
              "KeyEventPayload onkeydown ''a''"]
        level_triggered_queueing
          [of "canvasEventHandler (keydown ''a'')
                (canvasEventHandler (keydown ''a'')
                 (setEnginePauseStateCallback (\<lambda>_. True) EventHandler_new))"
              "KeyEventPayload onkeyup ''a''"]
  by (simp add: setEnginePauseStateCallback_def EventHandler_new_def queueEvent_def
        push_payload_def KeyEventPayload_def empty_payload_def)

text \<open>
  C2, at the input where it fails. One callback listens to \<open>onmousemove\<close> and the
  canvas reports two mouse moves before the next dispatch. \<open>dispatchQueue\<close> hands
  both payloads to the callback, in queue order, and then leaves the second one in the
  queue: the clearing loop removes index 0, moves on to index 1, and finds the array
  one element long.
\<close>

theorem dispatchQueue_leaves_second_payload:
  "dispatchQueue
     (canvasEventHandler (mousemove 0 3 4)
       (canvasEventHandler (mousemove 0 1 2)
         (registerEventCallback onmousemove (UserCallback 0)
           (setEnginePauseStateCallback (\<lambda>_. True) EventHandler_new))))
   = ([(onmousemove, UserCallback 0, MouseEventPayload onmousemove 0 1 2),
       (onmousemove, UserCallback 0, MouseEventPayload onmousemove 0 3 4)],
      (registerEventCallback onmousemove (UserCallback 0)
         (setEnginePauseStateCallback (\<lambda>_. True) EventHandler_new))
       \<lparr>queuedEventPayloads := (\<lambda>_. [])(onmousemove := [MouseEventPayload onmousemove 0 3 4])\<rparr>)"
  by (simp add: dispatchQueue_def event_types_def dispatchType_def queueEvent_def
        push_payload_def registerEventCallback_def setEnginePauseStateCallback_def
        EventHandler_new_def clearQueue.simps js_splice_def fun_eq_iff)


section \<open>Properties of the Actor\<close>

lemma performDrawCalls_actor:
  "doDraw a \<Longrightarrow>
   fst (state_of (performDrawCalls canvas interp a))
     = a\<lparr>pos := vec_add (last_pos (lastState a))
                  (vec_mult (vec_sub (pos a) (last_pos (lastState a))) interp)\<rparr>"
  by (simp add: performDrawCalls_def Let_def split: completion.splits option.splits)

text \<open>
  C10. With drawing enabled, \<open>performDrawCalls\<close> leaves the actor with
  \<open>pos = lastState.pos + (pos - lastState.pos) * interp\<close>, by component, and with
  the \<open>vel\<close>, \<open>lastState\<close> and \<open>size\<close> it had; this holds whether the call
  returns or a missing texture makes it throw, since the assignment comes first. With
  drawing disabled the call returns the actor and the canvas as they were.
\<close>

theorem performDrawCalls_overwrites_pos:
  "(doDraw a \<longrightarrow>
      (let a' = fst (state_of (performDrawCalls canvas interp a)); l = last_pos (lastState a)
       in pos a' = vec_add l (vec_mult (vec_sub (pos a) l) interp)
        \<and> vec_x (pos a') = vec_x l + (vec_x (pos a) - vec_x l) * interp
        \<and> vec_y (pos a') = vec_y l + (vec_y (pos a) - vec_y l) * interp
        \<and> vel a' = vel a \<and> lastState a' = lastState a \<and> actor_size a' = actor_size a))
   \<and> (\<not> doDraw a \<longrightarrow> performDrawCalls canvas interp a = Normal (a, canvas))"
proof (intro conjI impI)
  assume "doDraw a"
  then show "let a' = fst (state_of (performDrawCalls canvas interp a)); l = last_pos (lastState a)
       in pos a' = vec_add l (vec_mult (vec_sub (pos a) l) interp)
        \<and> vec_x (pos a') = vec_x l + (vec_x (pos a) - vec_x l) * interp
        \<and> vec_y (pos a') = vec_y l + (vec_y (pos a) - vec_y l) * interp
        \<and> vel a' = vel a \<and> lastState a' = lastState a \<and> actor_size a' = actor_size a"
    by (simp add: performDrawCalls_actor Let_def vec_add_def vec_mult_def vec_sub_def vec_def)
next
  assume "\<not> doDraw a"
  then show "performDrawCalls canvas interp a = Normal (a, canvas)"
    by (simp add: performDrawCalls_def)
qed

theorem performDrawCalls_overwrites_pos_witness:
  "doDraw moved_actor
   \<and> pos (fst (state_of (performDrawCalls [] (1 / 2) moved_actor))) = vec 5 10
   \<and> vel (fst (state_of (performDrawCalls [] (1 / 2) moved_actor))) = vel moved_actor
   \<and> lastState (fst (state_of (performDrawCalls [] (1 / 2) moved_actor))) = lastState moved_actor
   \<and> \<not> doDraw (moved_actor\<lparr>doDraw := False\<rparr>)
   \<and> performDrawCalls [] (1 / 2) (moved_actor\<lparr>doDraw := False\<rparr>)
       = Normal (moved_actor\<lparr>doDraw := False\<rparr>, [])"
proof -
  have on: "doDraw moved_actor"
    by (simp add: moved_actor_def Actor_new_def)
  have off: "\<not> doDraw (moved_actor\<lparr>doDraw := False\<rparr>)"
    by simp
  have lerp: "vec_add (last_pos (lastState moved_actor))
                (vec_mult (vec_sub (pos moved_actor) (last_pos (lastState moved_actor))) (1 / 2))
              = vec 5 10"
    by (simp add: moved_actor_def Actor_new_def vec_add_def vec_mult_def vec_sub_def vec_def)
  note drawn = performDrawCalls_overwrites_pos [of moved_actor "[]" "1 / 2", THEN conjunct1, rule_format, OF on]
  note skipped = performDrawCalls_overwrites_pos [of "moved_actor\<lparr>doDraw := False\<rparr>" "[]" "1 / 2",
      THEN conjunct2, rule_format, OF off]
  from drawn have "pos (fst (state_of (performDrawCalls [] (1 / 2) moved_actor))) = vec 5 10"
    unfolding Let_def lerp by (rule conjunct1)
  moreover from drawn have "vel (fst (state_of (performDrawCalls [] (1 / 2) moved_actor))) = vel moved_actor"
    unfolding Let_def by blast
  moreover from drawn have "lastState (fst (state_of (performDrawCalls [] (1 / 2) moved_actor))) = lastState moved_actor"
    unfolding Let_def by blast
  ultimately show ?thesis using on off skipped by blast
qed

lemma updateAnimation_step:
  assumes "animationID (animationManager a) \<noteq> []"
    and "animations (animationManager a) (animationID (animationManager a)) = Some st"
    and "animationFrame (animationManager a) < length (frames st)"
  shows "let am = animationManager a;
             am' = animationManager (state_of (updateAnimation delta a));
             d = duration (frames st ! animationFrame am)
         in animations am' = animations am \<and> animationID am' = animationID am
          \<and> (if deltaSum am + delta \<ge> d
             then deltaSum am' = deltaSum am + delta - d
                \<and> animationFrame am' = (animationFrame am + 1) mod length (frames st)
             else deltaSum am' = deltaSum am + delta
                \<and> animationFrame am' = animationFrame am)"
  using assms
  by (simp add: updateAnimation_def Let_def split: option.splits)

lemma div_mod_offset:
  "s < 100 \<Longrightarrow> (s + k * 100) mod 100 = s \<and> (s + k * 100) div 100 = k" for s k :: nat
  by simp

lemma wrap_after_40:
  fixes m :: nat
  assumes "60 \<le> m mod 100"
  shows "(m + 40) mod 100 = m mod 100 - 60 \<and> (m + 40) div 100 = m div 100 + 1"
proof -
  define r q where "r = m mod 100" and "q = m div 100"
  have r: "60 \<le> r" "r < 100" using assms by (simp_all add: r_def)
  have "m = r + q * 100" by (simp add: r_def q_def)
  then have eq: "m + 40 = (r - 60) + (q + 1) * 100"
    using r by simp
  have small: "r - 60 < 100" using r by simp
  have "(m + 40) mod 100 = r - 60 \<and> (m + 40) div 100 = q + 1"
    unfolding eq using small by (rule div_mod_offset)
  then show ?thesis by (simp add: r_def q_def)
qed

lemma no_wrap_after_40:
  fixes m :: nat
  assumes "m mod 100 < 60"
  shows "(m + 40) mod 100 = m mod 100 + 40 \<and> (m + 40) div 100 = m div 100"
proof -
  define r q where "r = m mod 100" and "q = m div 100"
  have r: "r < 60" using assms by (simp add: r_def)
  have "m = r + q * 100" by (simp add: r_def q_def)
  then have eq: "m + 40 = (r + 40) + q * 100"
    by simp
  have small: "r + 40 < 100" using r by simp
  have "(m + 40) mod 100 = r + 40 \<and> (m + 40) div 100 = q"
    unfolding eq using small by (rule div_mod_offset)
  then show ?thesis by (simp add: r_def q_def)
qed


lemma rat_of_nat_wrap: "60 \<le> r \<Longrightarrow> (of_nat r :: rat) + 40 - 100 = of_nat (r - 60)"
  by (simp add: of_nat_diff)

lemma rat_of_nat_ge: "(100 :: rat) \<le> of_nat r + 40 \<longleftrightarrow> 60 \<le> r"
  by linarith

lemma animation_scenario_invariant:
  assumes active: "animationID (animationManager a) \<noteq> []"
    and state: "animations (animationManager a) (animationID (animationManager a)) = Some st"
    and three: "length (frames st) = 3"
    and hundred: "\<forall>f \<in> set (frames st). duration f = 100"
    and start: "animationFrame (animationManager a) = 0" "deltaSum (animationManager a) = 0"
  shows "animations (animationManager (((\<lambda>b. state_of (updateAnimation 40 b)) ^^ n) a))
           = animations (animationManager a)
       \<and> animationID (animationManager (((\<lambda>b. state_of (updateAnimation 40 b)) ^^ n) a))
           = animationID (animationManager a)
       \<and> animationFrame (animationManager (((\<lambda>b. state_of (updateAnimation 40 b)) ^^ n) a))
           = (40 * n div 100) mod 3
       \<and> deltaSum (animationManager (((\<lambda>b. state_of (updateAnimation 40 b)) ^^ n) a))
           = of_nat (40 * n mod 100)"
proof (induction n)
  case 0
  show ?case using start by simp
next
  case (Suc n)
  define b where "b = ((\<lambda>b. state_of (updateAnimation 40 b)) ^^ n) a"
  define b' where "b' = state_of (updateAnimation 40 b)"
  define r q where "r = 40 * n mod 100" and "q = 40 * n div 100"
  define r' q' where "r' = 40 * Suc n mod 100" and "q' = 40 * Suc n div 100"
  have next_m: "40 * Suc n = 40 * n + 40" by simp
  have b_id: "animationID (animationManager b) \<noteq> []"
    and b_st: "animations (animationManager b) (animationID (animationManager b)) = Some st"
    and b_static: "animations (animationManager b) = animations (animationManager a)"
       "animationID (animationManager b) = animationID (animationManager a)"
    and b_frame: "animationFrame (animationManager b) = q mod 3"
    and b_sum: "deltaSum (animationManager b) = of_nat r"
    using Suc active state by (simp_all add: b_def r_def q_def)
  have in_range: "animationFrame (animationManager b) < length (frames st)"
    using b_frame three by simp
  then have d: "duration (frames st ! animationFrame (animationManager b)) = 100"
    using hundred by simp
  note step = updateAnimation_step [OF b_id b_st in_range, of 40, unfolded Let_def d, folded b'_def]
  have unfold_Suc: "((\<lambda>b. state_of (updateAnimation 40 b)) ^^ Suc n) a = b'"
    by (simp add: b_def b'_def)
  have static: "animations (animationManager b') = animations (animationManager a)"
    "animationID (animationManager b') = animationID (animationManager a)"
    using step b_static by simp_all
  have "animationFrame (animationManager b') = q' mod 3 \<and> deltaSum (animationManager b') = of_nat r'"
  proof (cases "60 \<le> r")
    case True
    have nxt: "r' = r - 60" "q' = q + 1"
      using wrap_after_40 [of "40 * n"] True unfolding r_def q_def r'_def q'_def next_m by simp_all
    have ge: "deltaSum (animationManager b) + 40 \<ge> 100"
      unfolding b_sum rat_of_nat_ge by (rule True)
    from step ge have "deltaSum (animationManager b') = deltaSum (animationManager b) + 40 - 100"
      and "animationFrame (animationManager b') = (animationFrame (animationManager b) + 1) mod length (frames st)"
      by simp_all
    then show ?thesis
      unfolding b_sum b_frame three nxt rat_of_nat_wrap [OF True] by (simp add: mod_simps)
  next
    case False
    then have lt: "r < 60" by simp
    have nxt: "r' = r + 40" "q' = q"
      using no_wrap_after_40 [of "40 * n"] lt unfolding r_def q_def r'_def q'_def next_m by simp_all
    have ge: "\<not> deltaSum (animationManager b) + 40 \<ge> 100"
      unfolding b_sum rat_of_nat_ge using lt by simp
    from step ge have "deltaSum (animationManager b') = deltaSum (animationManager b) + 40"
      and "animationFrame (animationManager b') = animationFrame (animationManager b)"
      by simp_all
    then show ?thesis
      unfolding b_sum b_frame nxt by simp
  qed
  then show ?case
    unfolding unfold_Suc using static by (simp add: r'_def q'_def)
qed


text \<open>
  C8. Take an actor with an active animation. In general, one call of
  \<open>updateAnimation\<close> with a frame index in range adds \<open>delta\<close> to \<open>deltaSum\<close>;
  if the sum has reached the duration of the current frame, that duration is
  subtracted and the frame index becomes the next one modulo the number of frames;
  otherwise the frame index stays. With three frames of 100 ms, starting at frame 0
  with \<open>deltaSum = 0\<close>, after \<open>n\<close> calls with \<open>delta = 40\<close> the frame index is
  \<open>(40 * n div 100) mod 3\<close>.
\<close>

theorem updateAnimation_advances_frames:
  assumes "animationID (animationManager a) \<noteq> []"
    and "animations (animationManager a) (animationID (animationManager a)) = Some st"
  shows "(animationFrame (animationManager a) < length (frames st) \<longrightarrow>
           (let am = animationManager a;
                am' = animationManager (state_of (updateAnimation delta a));
                d = duration (frames st ! animationFrame am)
            in if deltaSum am + delta \<ge> d
               then deltaSum am' = deltaSum am + delta - d
                  \<and> animationFrame am' = (animationFrame am + 1) mod length (frames st)
               else deltaSum am' = deltaSum am + delta
                  \<and> animationFrame am' = animationFrame am))
       \<and> (length (frames st) = 3 \<and> (\<forall>f \<in> set (frames st). duration f = 100)
            \<and> animationFrame (animationManager a) = 0 \<and> deltaSum (animationManager a) = 0 \<longrightarrow>
           animationFrame (animationManager (((\<lambda>b. state_of (updateAnimation 40 b)) ^^ n) a))
             = (40 * n div 100) mod 3)"
proof (intro conjI impI)
  assume "animationFrame (animationManager a) < length (frames st)"
  from updateAnimation_step [OF assms this, of delta]
  show "let am = animationManager a;
            am' = animationManager (state_of (updateAnimation delta a));
            d = duration (frames st ! animationFrame am)
        in if deltaSum am + delta \<ge> d
           then deltaSum am' = deltaSum am + delta - d
              \<and> animationFrame am' = (animationFrame am + 1) mod length (frames st)
           else deltaSum am' = deltaSum am + delta
              \<and> animationFrame am' = animationFrame am"
    unfolding Let_def by (simp split: if_splits)
next
  assume "length (frames st) = 3 \<and> (\<forall>f \<in> set (frames st). duration f = 100)
            \<and> animationFrame (animationManager a) = 0 \<and> deltaSum (animationManager a) = 0"
  then show "animationFrame (animationManager (((\<lambda>b. state_of (updateAnimation 40 b)) ^^ n) a))
             = (40 * n div 100) mod 3"
    using animation_scenario_invariant [OF assms, of n] by blast
qed

lemma walker_three_steps:
  "animationManager (state_of (updateAnimation 40 (state_of (updateAnimation 40
      (state_of (updateAnimation 40 walker))))))
   = \<lparr>animations = [''walk'' \<mapsto> walk_cycle], animationID = ''walk'',
      animationFrame = 1, deltaSum = 20\<rparr>"
  by (simp add: updateAnimation_def walker_def walk_cycle_def Actor_new_def Let_def sprite_sheet_def)

theorem updateAnimation_advances_frames_witness:
  "animationID (animationManager walker) \<noteq> []
   \<and> animations (animationManager walker) (animationID (animationManager walker)) = Some walk_cycle
   \<and> map duration (frames walk_cycle) = [100, 100, 100]
   \<and> animationFrame (animationManager walker) = 0 \<and> deltaSum (animationManager walker) = 0
   \<and> animationFrame (animationManager (((\<lambda>b. state_of (updateAnimation 40 b)) ^^ 5) walker)) = 2
   \<and> animationFrame (animationManager (((\<lambda>b. state_of (updateAnimation 40 b)) ^^ 8) walker)) = 0"
proof -
  have h1: "animationID (animationManager walker) \<noteq> []"
    and h2: "animations (animationManager walker) (animationID (animationManager walker)) = Some walk_cycle"
    and h3: "length (frames walk_cycle) = 3 \<and> (\<forall>f \<in> set (frames walk_cycle). duration f = 100)
             \<and> animationFrame (animationManager walker) = 0 \<and> deltaSum (animationManager walker) = 0"
    and h4: "map duration (frames walk_cycle) = [100, 100, 100]"
    by (simp_all add: walker_def walk_cycle_def)
  have "animationFrame (animationManager (((\<lambda>b. state_of (updateAnimation 40 b)) ^^ 5) walker))
          = (40 * 5 div 100) mod 3"
    using updateAnimation_advances_frames [OF h1 h2, of 0 5, THEN conjunct2] h3 by blast
  moreover have "animationFrame (animationManager (((\<lambda>b. state_of (updateAnimation 40 b)) ^^ 8) walker))
          = (40 * 8 div 100) mod 3"
    using updateAnimation_advances_frames [OF h1 h2, of 0 8, THEN conjunct2] h3 by blast
  ultimately show ?thesis using h1 h2 h3 h4 by simp
qed

section \<open>Properties of the rounding\<close>

text \<open>
  Rounding keeps the sign, and moves a number by at most half a unit in the last place:
  by at most \<open>2^-53\<close> of its magnitude, or by \<open>2^-1075\<close> among the subnormals.
\<close>

lemma pow2_pos: "0 < pow2 e"
  by (simp add: pow2_def)

lemma pow2_power_int: "pow2 e = power_int 2 e"
  by (simp add: pow2_def power_int_def inverse_eq_divide power_one_over)

lemma pow2_diff: "pow2 (a - b) = pow2 a / pow2 b"
  by (simp add: pow2_power_int power_int_diff)

lemma pow2_nat: "0 \<le> e \<Longrightarrow> pow2 e = 2 ^ nat e"
  by (simp add: pow2_def)

lemma bit_length_bounds:
  "0 < n \<Longrightarrow> 1 \<le> bit_length n \<and> 2 ^ nat (bit_length n - 1) \<le> n \<and> n < 2 ^ nat (bit_length n)"
proof (induction n rule: bit_length.induct)
  case (1 n)
  show ?case
  proof (cases "n = 1")
    case True
    have "bit_length 1 = 1"
      by (subst bit_length.simps) (simp add: bit_length.simps [of 0])
    with True show ?thesis by simp
  next
    case False
    with 1(2) have pos: "0 < n div 2" by simp
    from 1(1) pos 1(2) have IH: "1 \<le> bit_length (n div 2)"
      "2 ^ nat (bit_length (n div 2) - 1) \<le> n div 2" "n div 2 < 2 ^ nat (bit_length (n div 2))"
      by simp_all
    define b where "b = bit_length (n div 2)"
    have bl: "bit_length n = 1 + b"
      using 1(2) by (subst bit_length.simps) (simp add: b_def)
    have e1: "nat (1 + b - 1) = Suc (nat (b - 1))" and e2: "nat (1 + b) = Suc (nat b)"
      using IH(1) by (simp_all add: b_def)
    have "2 * 2 ^ nat (b - 1) \<le> 2 * (n div 2)" using IH(2) by (simp add: b_def)
    also have "\<dots> \<le> n" by simp
    finally have lo: "2 ^ nat (1 + b - 1) \<le> n" unfolding e1 by simp
    have "n div 2 + 1 \<le> 2 ^ nat b" using IH(3) by (simp add: b_def)
    then have "2 * (n div 2) + 2 \<le> 2 * 2 ^ nat b" by simp
    moreover have "n < 2 * (n div 2) + 2" by linarith
    ultimately have hi: "n < 2 ^ nat (1 + b)" unfolding e2 by simp
    show ?thesis unfolding bl using lo hi IH(1) by (simp add: b_def)
  qed
qed

lemma bit_length_rat:
  assumes "0 < n"
  shows "pow2 (bit_length n - 1) \<le> of_int n" and "of_int n < pow2 (bit_length n)"
proof -
  note b = bit_length_bounds [OF assms]
  have "pow2 (bit_length n - 1) = 2 ^ nat (bit_length n - 1)"
    using b by (intro pow2_nat) simp
  also have "\<dots> = of_int (2 ^ nat (bit_length n - 1))" by simp
  also have "\<dots> \<le> of_int n" using b by (intro of_int_le_iff [THEN iffD2]) simp
  finally show "pow2 (bit_length n - 1) \<le> of_int n" .
  have "of_int n < (of_int (2 ^ nat (bit_length n)) :: rat)"
    using b by (intro of_int_less_iff [THEN iffD2]) simp
  also have "\<dots> = pow2 (bit_length n)"
    using b by (simp add: pow2_nat)
  finally show "of_int n < pow2 (bit_length n)" .
qed

lemma binade_le:
  assumes "q \<noteq> 0"
  shows "pow2 (binade q) \<le> \<bar>q\<bar>"
proof -
  obtain n d where nd: "quotient_of \<bar>q\<bar> = (n, d)" by (cases "quotient_of \<bar>q\<bar>")
  have d: "0 < d" using nd quotient_of_denom_pos by blast
  have q: "\<bar>q\<bar> = of_int n / of_int d" using nd by (rule quotient_of_div)
  have "0 < \<bar>q\<bar>" using assms by simp
  then have n: "0 < n" using q d by (simp add: zero_less_divide_iff)
  define k where "k = bit_length n - bit_length d"
  have bin: "binade q = (if pow2 k \<le> \<bar>q\<bar> then k else k - 1)"
    by (simp add: binade_def nd k_def Let_def)
  show ?thesis
  proof (cases "pow2 k \<le> \<bar>q\<bar>")
    case True
    then show ?thesis by (simp add: bin)
  next
    case False
    have "pow2 (k - 1) = pow2 (bit_length n - 1) / pow2 (bit_length d)"
      by (simp add: k_def pow2_diff [symmetric] algebra_simps)
    also have "\<dots> \<le> of_int n / pow2 (bit_length d)"
      using bit_length_rat(1) [OF n] pow2_pos [of "bit_length d"]
      by (simp add: divide_right_mono)
    also have "\<dots> \<le> of_int n / of_int d"
      using bit_length_rat(2) [OF d] n d
      by (intro divide_left_mono) (simp_all add: pow2_pos)
    finally show ?thesis using False by (simp add: bin q)
  qed
qed

lemma round_half_even_error: "\<bar>of_int (round_half_even y) - y\<bar> \<le> 1 / 2"
proof -
  have "of_int \<lfloor>y\<rfloor> \<le> y" "y < of_int \<lfloor>y\<rfloor> + 1" by linarith+
  then show ?thesis
    by (auto simp: round_half_even_def Let_def)
qed

lemma round_half_even_nonneg: "0 \<le> y \<Longrightarrow> 0 \<le> round_half_even y"
  by (auto simp: round_half_even_def Let_def)

lemma fl64_nonneg: "0 \<le> q \<Longrightarrow> 0 \<le> fl64 q"
  by (simp add: fl64_def Let_def pow2_pos less_imp_le round_half_even_nonneg)

lemma fl64_half_ulp:
  "\<bar>fl64 q - q\<bar> \<le> pow2 (max (binade q - 52) (- 1074)) / 2"
proof (cases "q = 0")
  case True
  then show ?thesis using pow2_pos [of "max (binade q - 52) (- 1074)"] by (simp add: fl64_def)
next
  case False
  define p where "p = pow2 (max (binade q - 52) (- 1074))"
  have p: "0 < p" by (simp add: p_def pow2_pos)
  have "fl64 q - q = (of_int (round_half_even (q / p)) - q / p) * p"
    using False p by (simp add: fl64_def Let_def p_def algebra_simps)
  then have "\<bar>fl64 q - q\<bar> = \<bar>of_int (round_half_even (q / p)) - q / p\<bar> * p"
    using p by (simp add: abs_mult)
  also have "\<dots> \<le> 1 / 2 * p"
    using round_half_even_error [of "q / p"] p by (intro mult_right_mono) simp_all
  finally show ?thesis by (simp add: p_def)
qed

lemma fl64_error: "\<bar>fl64 q - q\<bar> \<le> \<bar>q\<bar> / 2 ^ 53 + 1 / 2 ^ 64"
proof (cases "q = 0")
  case True
  then show ?thesis by (simp add: fl64_def)
next
  case False
  define p where "p = pow2 (max (binade q - 52) (- 1074))"
  have ulp: "\<bar>fl64 q - q\<bar> \<le> p / 2"
    unfolding p_def by (rule fl64_half_ulp)
  show ?thesis
  proof (cases "- 1074 \<le> binade q - 52")
    case True
    then have "max (binade q - 52) (- 1074) = binade q - 52" by simp
    then have "p = pow2 (binade q) / pow2 52"
      unfolding p_def by (simp only: pow2_diff)
    also have "\<dots> \<le> \<bar>q\<bar> / pow2 52"
      using binade_le [OF False] pow2_pos [of 52] by (simp add: divide_right_mono)
    also have "\<dots> = \<bar>q\<bar> / 2 ^ 52" by (simp add: pow2_def)
    finally have "p / 2 \<le> \<bar>q\<bar> / 2 ^ 53" by simp
    with ulp show ?thesis by simp
  next
    case False
    then have "max (binade q - 52) (- 1074) = - 1074" by simp
    then have "p = pow2 (- 1074)" unfolding p_def by (simp only:)
    also have "\<dots> = 1 / 2 ^ 1074" by (simp add: pow2_def)
    also have "\<dots> \<le> 1 / 2 ^ 63"
      by (intro divide_left_mono power_increasing) simp_all
    finally have "p / 2 \<le> 1 / 2 ^ 64" by simp
    moreover have "0 \<le> \<bar>q\<bar> / 2 ^ 53" by simp
    ultimately show ?thesis using ulp by linarith
  qed
qed

lemma fl64_error_small:
  assumes "0 \<le> x" and "fl64 x \<le> 8100"
  shows "\<bar>fl64 x - x\<bar> \<le> 1 / 2 ^ 40" and "x \<le> fl64 x + 1"
proof -
  have e: "\<bar>fl64 x - x\<bar> \<le> x / 2 ^ 53 + 1 / 2 ^ 64"
    using fl64_error [of x] assms(1) by simp
  then have "x \<le> 8101" using assms(2) by (simp add: abs_le_iff)
  with e show "\<bar>fl64 x - x\<bar> \<le> 1 / 2 ^ 40" by simp
  with \<open>x \<le> 8101\<close> e show "x \<le> fl64 x + 1" by (simp add: abs_le_iff)
qed


text \<open>
  The binade brackets the magnitude from above as well; rounding does not step over
  an integer; and a number of \<open>[0, 1 - 2^-53]\<close> is rounded to a double below 1.
\<close>

lemma pow2_mono: "a \<le> b \<Longrightarrow> pow2 a \<le> pow2 b"
  by (simp add: pow2_power_int power_int_increasing)

lemma binade_less:
  assumes "q \<noteq> 0"
  shows "\<bar>q\<bar> < pow2 (binade q + 1)"
proof -
  obtain n d where nd: "quotient_of \<bar>q\<bar> = (n, d)" by (cases "quotient_of \<bar>q\<bar>")
  have d: "0 < d" using nd quotient_of_denom_pos by blast
  have q: "\<bar>q\<bar> = of_int n / of_int d" using nd by (rule quotient_of_div)
  have "0 < \<bar>q\<bar>" using assms by simp
  then have n: "0 < n" using q d by (simp add: zero_less_divide_iff)
  define k where "k = bit_length n - bit_length d"
  have bin: "binade q = (if pow2 k \<le> \<bar>q\<bar> then k else k - 1)"
    by (simp add: binade_def nd k_def Let_def)
  show ?thesis
  proof (cases "pow2 k \<le> \<bar>q\<bar>")
    case False
    then show ?thesis by (simp add: bin)
  next
    case True
    have "of_int n / of_int d < pow2 (bit_length n) / of_int d"
      using bit_length_rat(2) [OF n] d by (simp add: divide_strict_right_mono)
    also have "\<dots> \<le> pow2 (bit_length n) / pow2 (bit_length d - 1)"
      using bit_length_rat(1) [OF d] pow2_pos [of "bit_length n"] pow2_pos [of "bit_length d - 1"]
      by (intro divide_left_mono) (simp_all add: less_imp_le)
    also have "\<dots> = pow2 (k + 1)"
      by (simp add: k_def pow2_diff [symmetric] algebra_simps)
    finally show ?thesis using True by (simp add: bin q)
  qed
qed

lemma round_half_even_le: "y \<le> of_int N \<Longrightarrow> round_half_even y \<le> N"
proof -
  assume a: "y \<le> of_int N"
  have f: "of_int \<lfloor>y\<rfloor> \<le> y" "y < of_int \<lfloor>y\<rfloor> + 1" by linarith+
  show ?thesis
  proof (cases "y = of_int N")
    case True
    then show ?thesis by (simp add: round_half_even_def Let_def)
  next
    case False
    with a have "y < of_int N" by simp
    then have "\<lfloor>y\<rfloor> < N" by (simp add: floor_less_iff)
    then show ?thesis by (auto simp: round_half_even_def Let_def)
  qed
qed

lemma fl64_below_one:
  assumes "0 \<le> q" and "q \<le> 1 - 1 / 2 ^ 53"
  shows "fl64 q < 1"
proof (cases "q = 0")
  case True
  then show ?thesis by (simp add: fl64_def)
next
  case False
  have "binade q < 0"
  proof (rule ccontr)
    assume "\<not> binade q < 0"
    then have "pow2 0 \<le> pow2 (binade q)" by (intro pow2_mono) simp
    with binade_le [OF False] assms show False by (simp add: pow2_def)
  qed
  then have "pow2 (max (binade q - 52) (- 1074)) \<le> pow2 (- 53)"
    by (intro pow2_mono) simp
  also have "\<dots> = 1 / 2 ^ 53" by (simp add: pow2_def)
  finally have "\<bar>fl64 q - q\<bar> \<le> 1 / 2 ^ 53 / 2"
    using fl64_half_ulp [of q] by simp
  then have "fl64 q \<le> q + 1 / 2 ^ 53 / 2" by (simp only: abs_le_iff) linarith
  also have "\<dots> \<le> 1 - 1 / 2 ^ 53 + 1 / 2 ^ 53 / 2" using assms(2) by (simp only: add_right_mono)
  also have "\<dots> < 1" by simp
  finally show ?thesis .
qed


section \<open>Properties of the Engine\<close>

text \<open>
  Dispatching, ticking the scenes, rendering and sweeping leave the pacing fields
  alone; one pass of the loop body subtracts one tick duration from \<open>lag\<close> and
  counts one tick.
\<close>

lemma pacing_invoke: "pacing (invoke i e) = pacing e"
  by (cases "(i, e)" rule: invoke.cases) (auto simp: pacing_def fixDPI_def Let_def)

lemma pacing_fold_invoke: "pacing (fold invoke calls e) = pacing e"
  by (induction calls arbitrary: e) (simp_all add: pacing_invoke)

lemma pacing_engine_dispatchQueue: "pacing (engine_dispatchQueue e) = pacing e"
  by (simp add: engine_dispatchQueue_def pacing_fold_invoke split: prod.splits)
     (simp add: pacing_def)

lemma pacing_tick_scenes: "pacing (tick_scenes sm dt e) = pacing e"
  by (simp add: tick_scenes_def pacing_def)

lemma pacing_tick_once:
  "pacing (tick_once rnd sm e)
   = (rnd (lag e - targetTickDurationMilliseconds e), targetTickDurationMilliseconds e,
      isPaused e, isPreloaded e, maxUpdatesPerFrame e, updatesSinceEngineStart e + 1, renderCalls e)"
proof -
  let ?e1 = "e\<lparr>eventHandler :=
                queueEvent ontick (TickEventPayload (targetTickDurationMilliseconds e)) (eventHandler e)\<rparr>"
  let ?e3 = "engine_dispatchQueue (tick_scenes sm (targetTickDurationMilliseconds ?e1) ?e1)"
  have "pacing ?e3 = pacing e"
    by (simp add: pacing_engine_dispatchQueue pacing_tick_scenes) (simp add: pacing_def)
  then show ?thesis
    by (simp add: tick_once_def Let_def pacing_def)
qed

lemma sweep_state: "\<exists>sc. snd (filter_in_state sweep_keeps xs e) = e\<lparr>scenes := sc\<rparr>"
proof (induction xs arbitrary: e)
  case Nil
  have "e = e\<lparr>scenes := scenes e\<rparr>" by simp
  then show ?case by (metis filter_in_state.simps(1) snd_conv)
next
  case (Cons x xs)
  obtain b e1 where k: "sweep_keeps x e = (b, e1)" by (cases "sweep_keeps x e")
  then obtain sc1 where e1: "e1 = e\<lparr>scenes := sc1\<rparr>"
    by (auto simp: sweep_keeps_def removeScene_def Let_def split: if_splits) (metis engine.surjective engine.update_convs(4))
  from Cons [of e1] obtain sc where "snd (filter_in_state sweep_keeps xs e1) = e1\<lparr>scenes := sc\<rparr>" by blast
  then show ?case using k e1 by (auto simp: Let_def split: prod.splits)
qed

lemma pacing_sweep: "pacing (sweep e) = pacing e"
proof -
  obtain sc where "snd (filter_in_state sweep_keeps (scenes e) e) = e\<lparr>scenes := sc\<rparr>"
    using sweep_state by blast
  then show ?thesis
    by (auto simp: sweep_def Let_def pacing_def split: prod.splits)
qed

lemma pacing_render:
  "pacing (render sm f e)
   = (lag e, targetTickDurationMilliseconds e, isPaused e, isPreloaded e,
      maxUpdatesPerFrame e, updatesSinceEngineStart e, renderCalls e @ [f])"
  by (simp add: render_def Let_def pacing_def renderPreloadScreen_def split: prod.splits)


lemma tick_loop_stops:
  "\<not> (lag e \<ge> targetTickDurationMilliseconds e \<and> \<not> isPaused e) \<Longrightarrow> tick_loop rnd sm m c e = e"
  by (subst tick_loop.simps) auto

lemma tick_loop_continues:
  "lag e \<ge> targetTickDurationMilliseconds e \<Longrightarrow> \<not> isPaused e \<Longrightarrow>
   tick_loop rnd sm m c e
   = (if c + 1 \<ge> m then (tick_once rnd sm e)\<lparr>lag := 0\<rparr>
      else tick_loop rnd sm m (c + 1) (tick_once rnd sm e))"
  by (subst tick_loop.simps) (simp add: Let_def)

lemma pacing_lag_reset:
  "pacing (e\<lparr>lag := 0\<rparr>)
   = (0, targetTickDurationMilliseconds e, isPaused e, isPreloaded e,
      maxUpdatesPerFrame e, updatesSinceEngineStart e, renderCalls e)"
  by (simp add: pacing_def)

lemma pacing_fields:
  "pacing e = (l, T, p, q, m, n, r) \<Longrightarrow>
   lag e = l \<and> targetTickDurationMilliseconds e = T \<and> isPaused e = p \<and> isPreloaded e = q
   \<and> maxUpdatesPerFrame e = m \<and> updatesSinceEngineStart e = n \<and> renderCalls e = r"
  by (simp add: pacing_def)

lemma pacing_update:
  assumes "isPreloaded e"
  shows "\<exists>e1 e2. pacing e1 = (rnd (lag e + rnd (timestamp - previousUpdateTimestamp e)),
                              targetTickDurationMilliseconds e, isPaused e, True,
                              maxUpdatesPerFrame e, updatesSinceEngineStart e, renderCalls e)
               \<and> e2 = tick_loop rnd sm (maxUpdatesPerFrame e) 0 e1
               \<and> pacing (update rnd sm timestamp e)
                   = (lag e2, targetTickDurationMilliseconds e2, isPaused e2, isPreloaded e2,
                      maxUpdatesPerFrame e2, updatesSinceEngineStart e2,
                      renderCalls e2 @ [rounded rnd (js_div (lag e2) (targetTickDurationMilliseconds e2))])"
proof -
  define e1 where "e1 = e\<lparr>previousUpdateTimestamp := timestamp,
                     lag := rnd (lag e + rnd (timestamp - previousUpdateTimestamp e)),
                     engineRuntimeMilliseconds := rnd (engineRuntimeMilliseconds e + rnd (timestamp - previousUpdateTimestamp e)),
                     FPS := rounded rnd (js_div 1000 (rnd (timestamp - previousUpdateTimestamp e)))\<rparr>"
  define e2 where "e2 = tick_loop rnd sm (maxUpdatesPerFrame e) 0 e1"
  have p1: "pacing e1 = (rnd (lag e + rnd (timestamp - previousUpdateTimestamp e)),
                              targetTickDurationMilliseconds e, isPaused e, True,
                              maxUpdatesPerFrame e, updatesSinceEngineStart e, renderCalls e)"
    using assms by (simp add: e1_def pacing_def)
  have m1: "maxUpdatesPerFrame e1 = maxUpdatesPerFrame e" by (simp add: e1_def)
  have "update rnd sm timestamp e
        = sweep (render sm (rounded rnd (js_div (lag e2) (targetTickDurationMilliseconds e2))) e2)"
    using assms unfolding update_def Let_def e2_def e1_def [symmetric] m1 by simp
  then have "pacing (update rnd sm timestamp e)
                   = (lag e2, targetTickDurationMilliseconds e2, isPaused e2, isPreloaded e2,
                      maxUpdatesPerFrame e2, updatesSinceEngineStart e2,
                      renderCalls e2 @ [rounded rnd (js_div (lag e2) (targetTickDurationMilliseconds e2))])"
    by (simp add: pacing_sweep pacing_render)
  then show ?thesis using p1 e2_def by blast
qed

lemma T_double: "fl64 (1000 / TARGET_FPS) = 4691249611844267 / 281474976710656"
  unfolding TARGET_FPS_def by code_simp

lemma fl64_50: "fl64 50 = 50"
  by code_simp




lemma fl64_paused_factor: "fl64 (50 / (4691249611844267 / 281474976710656)) = 3"
  by code_simp

lemma pacing_running_engine:
  "pacing running_engine = (0, 4691249611844267 / 281474976710656, False, True, 240, 0, [])"
  by (simp add: running_engine_def start_def js_assert_def Engine_new_def fixDPI_def Let_def
        updatePauseState_def pacing_def MAX_UPDATES_PER_FRAME_def T_double)

lemma previous_running_engine: "previousUpdateTimestamp running_engine = 0"
  by (simp add: running_engine_def start_def js_assert_def Engine_new_def fixDPI_def Let_def
        updatePauseState_def)






text \<open>
  The loop leaves in the engine the \<open>lag\<close> and the count that \<open>lag_loop\<close> computes.
  With every subtraction rounded to a double, a loop that ends before the breaker
  leaves \<open>0 \<le> lag < T\<close> and accounts for the time it consumed up to \<open>2^-40\<close> ms a
  tick: such a loop starts below \<open>240 * 33\<close> ms, where a rounding moves a number by
  less than that.
\<close>

lemma lag_loop_counts: "c \<le> snd (lag_loop rnd T m c l)"
proof (induction rnd T m c l rule: lag_loop.induct)
  case (1 rnd T m c l)
  show ?case
  proof (cases "T \<le> l \<and> \<not> c + 1 \<ge> m")
    case True
    then have "lag_loop rnd T m c l = lag_loop rnd T m (c + 1) (rnd (l - T))"
      by (subst lag_loop.simps) simp
    moreover have "c + 1 \<le> snd (lag_loop rnd T m (c + 1) (rnd (l - T)))"
      using "1.IH" True by simp
    ultimately show ?thesis by simp
  next
    case False
    then show ?thesis by (subst lag_loop.simps) auto
  qed
qed

lemma pacing_tick_loop:
  "pacing e = (l, T, False, q, m', n, r) \<Longrightarrow>
   pacing (tick_loop rnd sm m c e)
   = (fst (lag_loop rnd T m c l), T, False, q, m', n + (snd (lag_loop rnd T m c l) - c), r)"
proof (induction rnd T m c l arbitrary: e n rule: lag_loop.induct)
  case (1 rnd T m c l)
  note f = pacing_fields [OF "1.prems"]
  show ?case
  proof (cases "T \<le> l")
    case False
    then have "tick_loop rnd sm m c e = e"
      using f by (intro tick_loop_stops) simp
    moreover have "lag_loop rnd T m c l = (l, c)"
      using False by (subst lag_loop.simps) simp
    ultimately show ?thesis using "1.prems" by simp
  next
    case True
    have p1: "pacing (tick_once rnd sm e) = (rnd (l - T), T, False, q, m', n + 1, r)"
      using f by (simp add: pacing_tick_once)
    have unfold: "tick_loop rnd sm m c e
                  = (if c + 1 \<ge> m then (tick_once rnd sm e)\<lparr>lag := 0\<rparr>
                     else tick_loop rnd sm m (c + 1) (tick_once rnd sm e))"
      using True f by (intro tick_loop_continues) simp_all
    show ?thesis
    proof (cases "c + 1 \<ge> m")
      case True
      have "lag_loop rnd T m c l = (0, c + 1)"
        using True \<open>T \<le> l\<close> by (subst lag_loop.simps) simp
      moreover have "pacing ((tick_once rnd sm e)\<lparr>lag := 0\<rparr>) = (0, T, False, q, m', n + 1, r)"
        using pacing_fields [OF p1] by (simp add: pacing_lag_reset)
      ultimately show ?thesis using unfold True by simp
    next
      case False
      have ll: "lag_loop rnd T m c l = lag_loop rnd T m (c + 1) (rnd (l - T))"
        using False \<open>T \<le> l\<close> by (subst lag_loop.simps) simp
      have mono: "c + 1 \<le> snd (lag_loop rnd T m (c + 1) (rnd (l - T)))"
        by (rule lag_loop_counts)
      have "pacing (tick_loop rnd sm m (c + 1) (tick_once rnd sm e))
            = (fst (lag_loop rnd T m (c + 1) (rnd (l - T))), T, False, q, m',
               n + 1 + (snd (lag_loop rnd T m (c + 1) (rnd (l - T))) - (c + 1)), r)"
        using "1.IH" [OF \<open>T \<le> l\<close> False p1] .
      then show ?thesis using unfold False ll mono by simp
    qed
  qed
qed


lemma lag_loop_accounting:
  assumes "0 < T" and "T \<le> 32" and "m \<le> 240"
  shows "0 \<le> l \<Longrightarrow> c < m \<Longrightarrow>
         snd (lag_loop fl64 T m c l) \<le> m
       \<and> (snd (lag_loop fl64 T m c l) = m \<longrightarrow> fst (lag_loop fl64 T m c l) = 0)
       \<and> (snd (lag_loop fl64 T m c l) < m \<longrightarrow>
            0 \<le> fst (lag_loop fl64 T m c l) \<and> fst (lag_loop fl64 T m c l) < T
          \<and> \<bar>of_nat (snd (lag_loop fl64 T m c l) - c) * T + fst (lag_loop fl64 T m c l) - l\<bar>
               \<le> of_nat (snd (lag_loop fl64 T m c l) - c) / 2 ^ 40
          \<and> l \<le> of_nat (snd (lag_loop fl64 T m c l) - c + 1) * (T + 1))"
proof (induction "m - c" arbitrary: c l)
  case 0
  then show ?case by simp
next
  case (Suc k)
  show ?case
  proof (cases "T \<le> l")
    case False
    then have "lag_loop fl64 T m c l = (l, c)" by (subst lag_loop.simps) simp
    then show ?thesis using False Suc.prems assms(1) by simp
  next
    case True
    show ?thesis
    proof (cases "c + 1 \<ge> m")
      case True
      then have "lag_loop fl64 T m c l = (0, c + 1)"
        using \<open>T \<le> l\<close> by (subst lag_loop.simps) simp
      then show ?thesis using True Suc.prems by simp
    next
      case False
      define l1 where "l1 = fl64 (l - T)"
      define l' where "l' = fst (lag_loop fl64 T m (c + 1) l1)"
      define c' where "c' = snd (lag_loop fl64 T m (c + 1) l1)"
      have ll: "lag_loop fl64 T m c l = (l', c')"
        using False \<open>T \<le> l\<close> by (subst lag_loop.simps) (simp add: l'_def c'_def l1_def)
      have l1: "0 \<le> l1" unfolding l1_def using \<open>T \<le> l\<close> by (intro fl64_nonneg) simp
      have k: "k = m - (c + 1)" using Suc.hyps(2) by simp
      have less: "c + 1 < m" using False by simp
      note IH = Suc.hyps(1) [OF k l1 less, folded l'_def c'_def]
      have ge: "c + 1 \<le> c'" unfolding c'_def by (rule lag_loop_counts)
      have "c' < m \<longrightarrow> 0 \<le> l' \<and> l' < T
          \<and> \<bar>of_nat (c' - c) * T + l' - l\<bar> \<le> of_nat (c' - c) / 2 ^ 40
          \<and> l \<le> of_nat (c' - c + 1) * (T + 1)"
      proof
        assume "c' < m"
        with IH have b: "0 \<le> l'" "l' < T"
          and acc: "\<bar>of_nat (c' - (c + 1)) * T + l' - l1\<bar> \<le> of_nat (c' - (c + 1)) / 2 ^ 40"
          and mag: "l1 \<le> of_nat (c' - (c + 1) + 1) * (T + 1)"
          by simp_all
        define j where "j = c' - (c + 1)"
        have j1: "c' - c = j + 1" and j2: "c' - c + 1 = j + 2"
          using ge by (simp_all add: j_def)
        have "j + 1 \<le> 240" using \<open>c' < m\<close> assms(3) ge by (simp add: j_def)
        then have "(of_nat (j + 1) :: rat) \<le> 240" by (simp only: of_nat_le_iff [symmetric, where ?'a = rat] of_nat_numeral)
        then have "of_nat (j + 1) * (T + 1) \<le> 240 * (33 :: rat)"
          using assms(1,2) by (intro mult_mono) simp_all
        with mag have "l1 \<le> 8100" unfolding j_def [symmetric] by simp
        then have small: "fl64 (l - T) \<le> 8100" by (simp only: l1_def)
        have nonneg: "0 \<le> l - T" using \<open>T \<le> l\<close> by simp
        have err: "\<bar>l1 - (l - T)\<bar> \<le> 1 / 2 ^ 40" and up: "l - T \<le> l1 + 1"
          unfolding l1_def by (rule fl64_error_small [OF nonneg small])+
        have e1: "(of_nat (j + 1) :: rat) * T = of_nat j * T + T"
          by (simp add: algebra_simps)
        have e2: "(of_nat (j + 2) :: rat) * (T + 1) = of_nat (j + 1) * (T + 1) + (T + 1)"
          by (simp add: algebra_simps)
        have e3: "(of_nat (j + 1) :: rat) / 2 ^ 40 = of_nat j / 2 ^ 40 + 1 / 2 ^ 40"
          by (simp add: add_divide_distrib)
        have "\<bar>of_nat (j + 1) * T + l' - l\<bar> \<le> of_nat (j + 1) / 2 ^ 40"
          unfolding e1 e3 using acc err unfolding j_def [symmetric] by linarith
        moreover have "l \<le> of_nat (j + 2) * (T + 1)"
          unfolding e2 using mag up unfolding j_def [symmetric] by linarith
        ultimately show "0 \<le> l' \<and> l' < T
          \<and> \<bar>of_nat (c' - c) * T + l' - l\<bar> \<le> of_nat (c' - c) / 2 ^ 40
          \<and> l \<le> of_nat (c' - c + 1) * (T + 1)"
          using b unfolding j1 j2 by simp
      qed
      with IH show ?thesis unfolding ll by simp
    qed
  qed
qed


lemma pacing_update_running:
  assumes "isPreloaded e" and "\<not> isPaused e"
    and "R = lag_loop rnd (targetTickDurationMilliseconds e) (maxUpdatesPerFrame e) 0
              (rnd (lag e + rnd (timestamp - previousUpdateTimestamp e)))"
  shows "pacing (update rnd sm timestamp e)
         = (fst R, targetTickDurationMilliseconds e, False, True, maxUpdatesPerFrame e,
            updatesSinceEngineStart e + snd R,
            renderCalls e @ [rounded rnd (js_div (fst R) (targetTickDurationMilliseconds e))])"
proof -
  obtain e1 e2
    where p1: "pacing e1 = (rnd (lag e + rnd (timestamp - previousUpdateTimestamp e)),
                            targetTickDurationMilliseconds e, False, True,
                            maxUpdatesPerFrame e, updatesSinceEngineStart e, renderCalls e)"
    and e2: "e2 = tick_loop rnd sm (maxUpdatesPerFrame e) 0 e1"
    and pu: "pacing (update rnd sm timestamp e)
             = (lag e2, targetTickDurationMilliseconds e2, isPaused e2, isPreloaded e2,
                maxUpdatesPerFrame e2, updatesSinceEngineStart e2,
                renderCalls e2 @ [rounded rnd (js_div (lag e2) (targetTickDurationMilliseconds e2))])"
    using pacing_update [OF assms(1), of rnd timestamp sm] assms(2) by auto
  have "pacing e2 = (fst R, targetTickDurationMilliseconds e, False, True, maxUpdatesPerFrame e,
                     updatesSinceEngineStart e + (snd R - 0), renderCalls e)"
    unfolding e2 assms(3) by (rule pacing_tick_loop [OF p1])
  from pacing_fields [OF this] pu show ?thesis by simp
qed

lemma update_running_fields:
  assumes "isPreloaded e" and "\<not> isPaused e"
    and "R = lag_loop rnd (targetTickDurationMilliseconds e) (maxUpdatesPerFrame e) 0
              (rnd (lag e + rnd (timestamp - previousUpdateTimestamp e)))"
  shows "lag (update rnd sm timestamp e) = fst R"
    and "ticks_executed rnd sm timestamp e = snd R"
    and "breaker_fired rnd sm timestamp e \<longleftrightarrow> 0 < snd R \<and> maxUpdatesPerFrame e \<le> snd R"
    and "renderCalls (update rnd sm timestamp e)
         = renderCalls e @ [rounded rnd (js_div (fst R) (targetTickDurationMilliseconds e))]"
  using pacing_fields [OF pacing_update_running [OF assms, of sm]]
  by (simp_all add: ticks_executed_def breaker_fired_def)


lemma T_bounds: "0 < fl64 (1000 / TARGET_FPS)" "fl64 (1000 / TARGET_FPS) \<le> 32"
  by (simp_all add: T_double)

lemma update_accounting:
  assumes "isPreloaded e" and "\<not> isPaused e"
    and T: "targetTickDurationMilliseconds e = fl64 (1000 / TARGET_FPS)"
    and m: "maxUpdatesPerFrame e = MAX_UPDATES_PER_FRAME"
    and "0 \<le> lag e" and "previousUpdateTimestamp e \<le> timestamp"
  shows "breaker_fired fl64 sm timestamp e \<Longrightarrow>
           ticks_executed fl64 sm timestamp e = maxUpdatesPerFrame e
         \<and> lag (update fl64 sm timestamp e) = 0"
    and "\<not> breaker_fired fl64 sm timestamp e \<Longrightarrow>
           ticks_executed fl64 sm timestamp e < maxUpdatesPerFrame e
         \<and> 0 \<le> lag (update fl64 sm timestamp e)
         \<and> lag (update fl64 sm timestamp e) < targetTickDurationMilliseconds e
         \<and> \<bar>of_nat (ticks_executed fl64 sm timestamp e) * targetTickDurationMilliseconds e
              + lag (update fl64 sm timestamp e)
              - (lag e + (timestamp - previousUpdateTimestamp e))\<bar> \<le> 1 / 2 ^ 32"
proof -
  define T where "T = targetTickDurationMilliseconds e"
  define d where "d = fl64 (timestamp - previousUpdateTimestamp e)"
  define L0 where "L0 = fl64 (lag e + d)"
  define R where "R = lag_loop fl64 T (maxUpdatesPerFrame e) 0 L0"
  have R: "R = lag_loop fl64 (targetTickDurationMilliseconds e) (maxUpdatesPerFrame e) 0
              (fl64 (lag e + fl64 (timestamp - previousUpdateTimestamp e)))"
    by (simp add: R_def T_def L0_def d_def)
  note f = update_running_fields [OF assms(1,2) R, of sm]
  have Tpos: "0 < T" and T32: "T \<le> 32" using T_bounds by (simp_all add: T_def T)
  have m240: "maxUpdatesPerFrame e \<le> 240" and mpos: "0 < maxUpdatesPerFrame e"
    by (simp_all add: m MAX_UPDATES_PER_FRAME_def)
  have d0: "0 \<le> d" unfolding d_def using assms(6) by (intro fl64_nonneg) simp
  have L00: "0 \<le> L0" unfolding L0_def using d0 assms(5) by (intro fl64_nonneg) simp
  note acc = lag_loop_accounting [OF Tpos T32 m240 L00 mpos, folded R_def]
  {
    assume "breaker_fired fl64 sm timestamp e"
    then have "snd R = maxUpdatesPerFrame e" using f(3) acc by simp
    then show "ticks_executed fl64 sm timestamp e = maxUpdatesPerFrame e
         \<and> lag (update fl64 sm timestamp e) = 0"
      using f(1,2) acc by simp
  }
  {
    assume "\<not> breaker_fired fl64 sm timestamp e"
    then have less: "snd R < maxUpdatesPerFrame e"
      using f(3) mpos by (cases "snd R = 0") simp_all
    with acc have b: "0 \<le> fst R" "fst R < T"
      and a: "\<bar>of_nat (snd R) * T + fst R - L0\<bar> \<le> of_nat (snd R) / 2 ^ 40"
      and mag: "L0 \<le> of_nat (snd R + 1) * (T + 1)"
      by simp_all
    have "snd R + 1 \<le> 240" using less m240 by simp
    then have n240: "(of_nat (snd R + 1) :: rat) \<le> 240"
      by (simp only: of_nat_le_iff [symmetric, where ?'a = rat] of_nat_numeral)
    then have "of_nat (snd R + 1) * (T + 1) \<le> 240 * (33 :: rat)"
      using Tpos T32 by (intro mult_mono) simp_all
    with mag have L0s: "L0 \<le> 7920" by simp
    then have s1: "fl64 (lag e + d) \<le> 8100" by (simp add: L0_def)
    have n1: "0 \<le> lag e + d" using assms(5) d0 by simp
    have e1: "\<bar>L0 - (lag e + d)\<bar> \<le> 1 / 2 ^ 40" and u1: "lag e + d \<le> L0 + 1"
      unfolding L0_def by (rule fl64_error_small [OF n1 s1])+
    have "d \<le> 7921" using u1 L0s assms(5) by simp
    then have s2: "fl64 (timestamp - previousUpdateTimestamp e) \<le> 8100" by (simp add: d_def)
    have n2: "0 \<le> timestamp - previousUpdateTimestamp e" using assms(6) by simp
    have e2: "\<bar>d - (timestamp - previousUpdateTimestamp e)\<bar> \<le> 1 / 2 ^ 40"
      unfolding d_def by (rule fl64_error_small [OF n2 s2])
    have "(of_nat (snd R) :: rat) \<le> 240" using n240 by simp
    then have "(of_nat (snd R) :: rat) / 2 ^ 40 \<le> 240 / 2 ^ 40"
      by (intro divide_right_mono) simp_all
    also have "\<dots> \<le> 1 / 2 ^ 32 - 2 / 2 ^ 40" by simp
    finally have "(of_nat (snd R) :: rat) / 2 ^ 40 \<le> 1 / 2 ^ 32 - 2 / 2 ^ 40" .
    with a e1 e2
    have "\<bar>of_nat (snd R) * T + fst R - (lag e + (timestamp - previousUpdateTimestamp e))\<bar>
          \<le> 1 / 2 ^ 32"
      by linarith
    then show "ticks_executed fl64 sm timestamp e < maxUpdatesPerFrame e
         \<and> 0 \<le> lag (update fl64 sm timestamp e)
         \<and> lag (update fl64 sm timestamp e) < targetTickDurationMilliseconds e
         \<and> \<bar>of_nat (ticks_executed fl64 sm timestamp e) * targetTickDurationMilliseconds e
              + lag (update fl64 sm timestamp e)
              - (lag e + (timestamp - previousUpdateTimestamp e))\<bar> \<le> 1 / 2 ^ 32"
      using f(1,2) less b by (simp add: T_def)
  }
qed











lemma sceneCalls_sweep: "sceneCalls (sweep e) = sceneCalls e"
proof -
  obtain sc where "snd (filter_in_state sweep_keeps (scenes e) e) = e\<lparr>scenes := sc\<rparr>"
    using sweep_state by blast
  then show ?thesis
    by (auto simp: sweep_def Let_def split: prod.splits)
qed

lemma update_while_paused:
  assumes "isPreloaded e" and "isPaused e" and "targetTickDurationMilliseconds e \<noteq> 0"
  shows "renderCalls (update rnd sm timestamp e)
           = renderCalls e @ [Finite (rnd (rnd (lag e + rnd (timestamp - previousUpdateTimestamp e))
                                        / targetTickDurationMilliseconds e))]"
    and "sceneCalls (update rnd sm timestamp e) = sceneCalls e"
    and "updatesSinceEngineStart (update rnd sm timestamp e) = updatesSinceEngineStart e"
proof -
  define e1 where "e1 = e\<lparr>previousUpdateTimestamp := timestamp,
                     lag := rnd (lag e + rnd (timestamp - previousUpdateTimestamp e)),
                     engineRuntimeMilliseconds := rnd (engineRuntimeMilliseconds e + rnd (timestamp - previousUpdateTimestamp e)),
                     FPS := rounded rnd (js_div 1000 (rnd (timestamp - previousUpdateTimestamp e)))\<rparr>"
  have stop: "tick_loop rnd sm (maxUpdatesPerFrame e1) 0 e1 = e1"
    using assms(2) by (intro tick_loop_stops) (simp add: e1_def)
  have u: "update rnd sm timestamp e
        = sweep (render sm (rounded rnd (js_div (lag e1) (targetTickDurationMilliseconds e1))) e1)"
    using assms(1) unfolding update_def Let_def e1_def [symmetric] stop by simp
  have "pacing (update rnd sm timestamp e)
        = (lag e1, targetTickDurationMilliseconds e1, isPaused e1, isPreloaded e1,
           maxUpdatesPerFrame e1, updatesSinceEngineStart e1,
           renderCalls e1 @ [rounded rnd (js_div (lag e1) (targetTickDurationMilliseconds e1))])"
    unfolding u by (simp add: pacing_sweep pacing_render)
  note f = pacing_fields [OF this]
  show "renderCalls (update rnd sm timestamp e)
           = renderCalls e @ [Finite (rnd (rnd (lag e + rnd (timestamp - previousUpdateTimestamp e))
                                        / targetTickDurationMilliseconds e))]"
    using f assms(3) by (simp add: e1_def js_div_def)
  show "updatesSinceEngineStart (update rnd sm timestamp e) = updatesSinceEngineStart e"
    using f by (simp add: e1_def)
  show "sceneCalls (update rnd sm timestamp e) = sceneCalls e"
    unfolding u using assms(1,2)
    by (simp add: sceneCalls_sweep render_def Let_def e1_def)
qed

text \<open>
  A frame of a running engine passes to \<open>render\<close> a factor in \<open>[0, 1)\<close>, the
  division rounded to a double as well: the \<open>lag\<close> the loop leaves is a double below
  the tick duration, hence at most the double before it, and the quotient of the two
  is at most \<open>1 - 2^-53\<close>. When the breaker fires, the factor is 0.
\<close>

lemma fl64_below_T:
  assumes "fl64 z < 4691249611844267 / 281474976710656"
  shows "fl64 z \<le> 4691249611844266 / 281474976710656"
proof (cases "z = 0")
  case True
  then show ?thesis by (simp add: fl64_def)
next
  case False
  define e where "e = max (binade z - 52) (- 1074)"
  define k where "k = round_half_even (z / pow2 e)"
  have y: "fl64 z = of_int k * pow2 e"
    using False by (simp add: fl64_def Let_def e_def k_def)
  show ?thesis
  proof (cases "- 48 \<le> e")
    case True
    define M where "M = k * 2 ^ nat (e + 48)"
    have "pow2 e = pow2 (e + 48) / pow2 48"
      using pow2_diff [of "e + 48" 48] by simp
    also have "pow2 (e + 48) = 2 ^ nat (e + 48)" using True by (intro pow2_nat) simp
    also have "pow2 48 = 281474976710656" by (simp add: pow2_def)
    finally have "fl64 z = of_int M / 281474976710656"
      by (simp add: y M_def)
    with assms have "(of_int M :: rat) < of_int 4691249611844267" by simp
    then have "M < 4691249611844267" by (simp only: of_int_less_iff)
    then have "M \<le> 4691249611844266" by simp
    then have "(of_int M :: rat) \<le> of_int 4691249611844266" by (simp only: of_int_le_iff)
    then show ?thesis
      unfolding \<open>fl64 z = of_int M / 281474976710656\<close> by simp
  next
    case False
    then have "binade z + 1 \<le> 4" by (simp add: e_def)
    then have "pow2 (binade z + 1) \<le> pow2 4" by (rule pow2_mono)
    with binade_less [OF \<open>z \<noteq> 0\<close>] have "\<bar>z\<bar> < pow2 4" by simp
    then have "z \<le> pow2 4" by simp
    then have "z / pow2 e \<le> pow2 4 / pow2 e"
      using pow2_pos [of e] by (simp add: divide_right_mono)
    also have "\<dots> = pow2 (4 - e)" by (simp only: pow2_diff)
    also have "\<dots> = 2 ^ nat (4 - e)" using False by (intro pow2_nat) simp
    also have "\<dots> = of_int (2 ^ nat (4 - e))" by simp
    finally have "k \<le> 2 ^ nat (4 - e)" unfolding k_def by (rule round_half_even_le)
    then have "(of_int k :: rat) \<le> of_int (2 ^ nat (4 - e))" by (simp only: of_int_le_iff)
    also have "\<dots> = pow2 (4 - e)" using False by (simp add: pow2_nat)
    finally have "of_int k * pow2 e \<le> pow2 (4 - e) * pow2 e"
      using pow2_pos [of e] by (intro mult_right_mono) simp_all
    also have "\<dots> = pow2 4" using pow2_pos [of e] by (simp add: pow2_diff)
    also have "\<dots> = 16" by (simp add: pow2_def)
    finally show ?thesis by (simp add: y)
  qed
qed

lemma lag_loop_rounded:
  "\<exists>z. l = fl64 z \<Longrightarrow> \<exists>z. fst (lag_loop fl64 T m c l) = fl64 z"
proof (induction "m - c" arbitrary: c l)
  case 0
  have "fl64 0 = 0" by (simp add: fl64_def)
  then have "\<exists>z. (0 :: rat) = fl64 z" by metis
  with 0 show ?case by (subst lag_loop.simps) simp
next
  case (Suc k)
  have "fl64 0 = 0" by (simp add: fl64_def)
  then have zero: "\<exists>z. (0 :: rat) = fl64 z" by metis
  show ?case
  proof (cases "T \<le> l \<and> \<not> c + 1 \<ge> m")
    case True
    then have "lag_loop fl64 T m c l = lag_loop fl64 T m (c + 1) (fl64 (l - T))"
      by (subst lag_loop.simps) simp
    moreover have "\<exists>z. fst (lag_loop fl64 T m (c + 1) (fl64 (l - T))) = fl64 z"
      using Suc.hyps(2) by (intro Suc.hyps(1)) auto
    ultimately show ?thesis by simp
  next
    case False
    then show ?thesis using Suc.prems zero by (subst lag_loop.simps) auto
  qed
qed

lemma interpolationFactor_running:
  assumes "isPreloaded e" and "\<not> isPaused e"
    and T: "targetTickDurationMilliseconds e = fl64 (1000 / TARGET_FPS)"
    and m: "maxUpdatesPerFrame e = MAX_UPDATES_PER_FRAME"
    and "0 \<le> lag e" and "previousUpdateTimestamp e \<le> timestamp"
  shows "\<exists>f. renderCalls (update fl64 sm timestamp e) = renderCalls e @ [Finite f]
             \<and> 0 \<le> f \<and> f < 1"
proof -
  let ?T = "4691249611844267 / 281474976710656 :: rat"
  define R where "R = lag_loop fl64 (targetTickDurationMilliseconds e) (maxUpdatesPerFrame e) 0
              (fl64 (lag e + fl64 (timestamp - previousUpdateTimestamp e)))"
  note f = update_running_fields [OF assms(1,2) R_def, of sm]
  have T0: "targetTickDurationMilliseconds e = ?T" by (simp add: T T_double)
  have b: "0 \<le> fst R \<and> fst R < ?T"
  proof (cases "breaker_fired fl64 sm timestamp e")
    case True
    then show ?thesis using update_accounting(1) [OF assms, of sm] f(1) by simp
  next
    case False
    then show ?thesis using update_accounting(2) [OF assms, of sm] f(1) T0 by simp
  qed
  obtain z where "fst R = fl64 z"
    unfolding R_def using lag_loop_rounded by blast
  with b have "fst R \<le> 4691249611844266 / 281474976710656"
    using fl64_below_T [of z] by simp
  then have "fst R / ?T \<le> 4691249611844266 / 281474976710656 / ?T"
    by (intro divide_right_mono) simp_all
  also have "\<dots> \<le> 1 - 1 / 2 ^ 53" by simp
  finally have q1: "fst R / ?T \<le> 1 - 1 / 2 ^ 53" .
  have q0: "0 \<le> fst R / ?T" using b by simp
  have "renderCalls (update fl64 sm timestamp e) = renderCalls e @ [Finite (fl64 (fst R / ?T))]"
    using f(4) unfolding T0 by (simp add: js_div_def)
  moreover have "0 \<le> fl64 (fst R / ?T)" using q0 by (rule fl64_nonneg)
  moreover have "fl64 (fst R / ?T) < 1" using q0 q1 by (rule fl64_below_one)
  ultimately show ?thesis by blast
qed

lemma pacing_paused_engine:
  "pacing (pause running_engine) = (0, 4691249611844267 / 281474976710656, True, True, 240, 0, [])"
  using pacing_running_engine by (simp add: pause_def updatePauseState_def pacing_def)

lemma previous_paused_engine: "previousUpdateTimestamp (pause running_engine) = 0"
  using previous_running_engine by (simp add: pause_def updatePauseState_def)


text \<open>
  C5, at the input where it fails. The started engine is paused and receives a frame
  at 50 ms, every operation rounded to a double. \<open>update\<close> adds the frame delta to
  \<open>lag\<close> whether the engine is paused or not and skips the loop: no tick runs, so
  the breaker does not fire, and \<open>render\<close> is called with \<open>lag / T\<close>, which is 3
  and not in \<open>[0, 1)\<close>.
\<close>

theorem interpolationFactor_of_paused_engine:
  "\<not> breaker_fired fl64 still_scenes 50 (pause running_engine)
   \<and> renderCalls (update fl64 still_scenes 50 (pause running_engine)) = [Finite 3]
   \<and> \<not> (3 :: rat) < 1"
proof -
  note fp = pacing_fields [OF pacing_paused_engine]
  have Tp: "targetTickDurationMilliseconds (pause running_engine) = 4691249611844267 / 281474976710656"
    and lp: "lag (pause running_engine) = 0" and rp: "renderCalls (pause running_engine) = []"
    and pp: "isPaused (pause running_engine)" "isPreloaded (pause running_engine)"
    using fp by blast+
  have nz: "targetTickDurationMilliseconds (pause running_engine) \<noteq> 0"
    unfolding Tp by simp
  have inner: "fl64 (0 + fl64 (50 - 0)) = 50"
    by (simp add: fl64_50)
  have "renderCalls (update fl64 still_scenes 50 (pause running_engine))
        = [Finite (fl64 (50 / (4691249611844267 / 281474976710656)))]"
    using update_while_paused(1) [OF pp(2) pp(1) nz, of fl64 still_scenes 50]
    unfolding rp Tp lp previous_paused_engine inner by simp
  then have r: "renderCalls (update fl64 still_scenes 50 (pause running_engine)) = [Finite 3]"
    unfolding fl64_paused_factor .
  have "ticks_executed fl64 still_scenes 50 (pause running_engine) = 0"
    using update_while_paused(3) [OF pp(2) pp(1) nz, of fl64 still_scenes 50]
    by (simp add: ticks_executed_def)
  then have "\<not> breaker_fired fl64 still_scenes 50 (pause running_engine)"
    by (simp add: breaker_fired_def)
  then show ?thesis using r by simp
qed

lemma sweep_keeps_true: "fst (sweep_keeps x e)"
  by (simp add: sweep_keeps_def removeScene_def Let_def)

lemma sweep_keeps_every_entry: "fst (filter_in_state sweep_keeps xs e) = xs"
proof (induction xs arbitrary: e)
  case Nil
  show ?case by simp
next
  case (Cons x xs)
  obtain b e1 where k: "sweep_keeps x e = (b, e1)" by (cases "sweep_keeps x e")
  then have b using sweep_keeps_true [of x e] by simp
  moreover obtain ys e2 where r: "filter_in_state sweep_keeps xs e1 = (ys, e2)"
    by (cases "filter_in_state sweep_keeps xs e1")
  moreover have "ys = xs" using Cons [of e1] r by simp
  ultimately show ?case using k by simp
qed

lemma fold_map_set_fresh:
  "distinct (map fst (acc @ xs)) \<Longrightarrow> fold (\<lambda>(k, v). map_set k v) xs acc = acc @ xs"
proof (induction xs arbitrary: acc)
  case Nil
  then show ?case by simp
next
  case (Cons x xs)
  obtain k v where x: "x = (k, v)" by (cases x)
  have fresh: "k \<notin> fst ` set acc" using Cons.prems x by auto
  have "distinct (map fst ((acc @ [(k, v)]) @ xs))" using Cons.prems x by simp
  from Cons.IH [OF this] show ?case
    using fresh x by (simp add: map_set_def)
qed

lemma new_Map_of_entries: "distinct (map fst xs) \<Longrightarrow> new_Map xs = xs"
  using fold_map_set_fresh [of "[]" xs] by (simp add: new_Map_def)

text \<open>
  The sweep replaces the registry by itself: the predicate is true of every entry,
  since \<open>removeScene\<close> evaluates to \<open>undefined\<close>, and the new map is built from the
  entries as they were before the filter ran.
\<close>

lemma scenes_sweep: "distinct (map fst (scenes e)) \<Longrightarrow> scenes (sweep e) = scenes e"
  by (simp add: sweep_def Let_def split: prod.splits)
     (metis sweep_keeps_every_entry fst_conv new_Map_of_entries)


lemma fl64_10: "fl64 10 = 10"
  by code_simp

lemma update_without_tick:
  assumes "isPreloaded e"
    and "rnd (lag e + rnd (timestamp - previousUpdateTimestamp e)) < targetTickDurationMilliseconds e"
  shows "update rnd sm timestamp e
         = sweep (render sm
             (rounded rnd (js_div (rnd (lag e + rnd (timestamp - previousUpdateTimestamp e)))
                                  (targetTickDurationMilliseconds e)))
             (e\<lparr>previousUpdateTimestamp := timestamp,
                lag := rnd (lag e + rnd (timestamp - previousUpdateTimestamp e)),
                engineRuntimeMilliseconds :=
                  rnd (engineRuntimeMilliseconds e + rnd (timestamp - previousUpdateTimestamp e)),
                FPS := rounded rnd (js_div 1000 (rnd (timestamp - previousUpdateTimestamp e)))\<rparr>))"
proof -
  define e1 where "e1 = e\<lparr>previousUpdateTimestamp := timestamp,
                     lag := rnd (lag e + rnd (timestamp - previousUpdateTimestamp e)),
                     engineRuntimeMilliseconds := rnd (engineRuntimeMilliseconds e + rnd (timestamp - previousUpdateTimestamp e)),
                     FPS := rounded rnd (js_div 1000 (rnd (timestamp - previousUpdateTimestamp e)))\<rparr>"
  have stop: "tick_loop rnd sm (maxUpdatesPerFrame e1) 0 e1 = e1"
    using assms(2) by (intro tick_loop_stops) (simp add: e1_def)
  have "update rnd sm timestamp e
        = sweep (render sm (rounded rnd (js_div (lag e1) (targetTickDurationMilliseconds e1))) e1)"
    using assms(1) unfolding update_def Let_def e1_def [symmetric] stop by simp
  then show ?thesis by (simp add: e1_def)
qed

lemma scenes_render:
  "isPreloaded e \<Longrightarrow> \<not> isPaused e \<Longrightarrow>
   scenes (render still_scenes f e) = scenes e
   \<and> sceneCalls (render still_scenes f e)
       = sceneCalls e @ map (\<lambda>(k, s). render_call (scene_ID s) f)
                          (filter (\<lambda>(k, s). isRenderEnabled s) (scenes e))"
proof -
  have "render_scenes still_scenes f xs c = (xs, c)" for xs c
    by (induction xs arbitrary: c) (auto simp: still_scenes_def)
  then show "isPreloaded e \<Longrightarrow> \<not> isPaused e \<Longrightarrow>
   scenes (render still_scenes f e) = scenes e
   \<and> sceneCalls (render still_scenes f e)
       = sceneCalls e @ map (\<lambda>(k, s). render_call (scene_ID s) f)
                          (filter (\<lambda>(k, s). isRenderEnabled s) (scenes e))"
    by (simp add: render_def Let_def)
qed

lemma sceneCalls_running_engine: "sceneCalls running_engine = []"
  by (simp add: running_engine_def start_def js_assert_def Engine_new_def fixDPI_def Let_def
        updatePauseState_def)

text \<open>
  C3, at the input where it fails. The registry of the started engine holds one
  scene, flagged for disposal and enabled for rendering. A frame at 10 ms renders the
  scene, which is the first half of the claim, and the sweep that follows leaves the
  scene in the registry.
\<close>

theorem disposal_sweep_keeps_flagged_scene:
  "isQueuedForDisposal sole_scene
   \<and> scenes disposing_engine = [(''s'', sole_scene)]
   \<and> (\<exists>f. sceneCalls (update fl64 still_scenes 10 disposing_engine) = [render_call ''s'' f])
   \<and> scenes (update fl64 still_scenes 10 disposing_engine) = [(''s'', sole_scene)]"
proof -
  have "pacing disposing_engine = pacing running_engine"
    by (simp add: disposing_engine_def pacing_def)
  note f = pacing_fields [OF this [unfolded pacing_running_engine]]
  have T0: "targetTickDurationMilliseconds disposing_engine = 4691249611844267 / 281474976710656"
    and l0: "lag disposing_engine = 0" and pre: "isPreloaded disposing_engine"
    and run: "\<not> isPaused disposing_engine"
    using f by blast+
  have prev: "previousUpdateTimestamp disposing_engine = 0"
    using previous_running_engine by (simp add: disposing_engine_def)
  have sc: "scenes disposing_engine = [(''s'', sole_scene)]"
    and calls: "sceneCalls disposing_engine = []"
    using sceneCalls_running_engine by (simp_all add: disposing_engine_def)
  have inner: "fl64 (lag disposing_engine + fl64 (10 - previousUpdateTimestamp disposing_engine)) = 10"
    unfolding l0 prev by (simp add: fl64_10)
  have small: "fl64 (lag disposing_engine + fl64 (10 - previousUpdateTimestamp disposing_engine))
               < targetTickDurationMilliseconds disposing_engine"
    unfolding inner T0 by simp
  define e1 where "e1 = disposing_engine\<lparr>previousUpdateTimestamp := 10,
                lag := fl64 (lag disposing_engine + fl64 (10 - previousUpdateTimestamp disposing_engine)),
                engineRuntimeMilliseconds :=
                  fl64 (engineRuntimeMilliseconds disposing_engine + fl64 (10 - previousUpdateTimestamp disposing_engine)),
                FPS := rounded fl64 (js_div 1000 (fl64 (10 - previousUpdateTimestamp disposing_engine)))\<rparr>"
  define F where "F = rounded fl64 (js_div (fl64 (lag disposing_engine + fl64 (10 - previousUpdateTimestamp disposing_engine)))
                                  (targetTickDurationMilliseconds disposing_engine))"
  have u: "update fl64 still_scenes 10 disposing_engine = sweep (render still_scenes F e1)"
    using update_without_tick [where rnd = fl64 and timestamp = 10 and sm = still_scenes, OF pre small]
    by (simp add: e1_def F_def)
  have e1: "isPreloaded e1" "\<not> isPaused e1" "scenes e1 = [(''s'', sole_scene)]" "sceneCalls e1 = []"
    using pre run sc calls by (simp_all add: e1_def)
  have r: "scenes (render still_scenes F e1) = [(''s'', sole_scene)]"
    and rc: "sceneCalls (render still_scenes F e1) = [render_call ''s'' F]"
    using scenes_render [OF e1(1,2), of F] e1(3,4) by (simp_all add: sole_scene_def)
  have "scenes (update fl64 still_scenes 10 disposing_engine) = [(''s'', sole_scene)]"
    unfolding u using scenes_sweep [of "render still_scenes F e1"] r by simp
  moreover have "sceneCalls (update fl64 still_scenes 10 disposing_engine) = [render_call ''s'' F]"
    unfolding u by (simp add: sceneCalls_sweep rc)
  moreover have "isQueuedForDisposal sole_scene" by (simp add: sole_scene_def)
  ultimately show ?thesis using sc by blast
qed

lemma start_started: "isStarted e \<Longrightarrow> start sm now e = Throw (Error ''Engine has already been started.'') e"
  by (simp add: start_def js_assert_def)

lemma start_sets_started: "start sm now e = Normal e' \<Longrightarrow> isStarted e'"
  by (auto simp: start_def js_assert_def Let_def updatePauseState_def split: if_splits)

text \<open>
  C9. If a call of \<open>start\<close> has returned, every later call of \<open>start\<close> on the
  engine it left throws the error with the message
  \<open>Engine has already been started.\<close> and changes nothing.
\<close>

theorem start_twice_throws:
  assumes "start sm now e = Normal e'"
  shows "start sm' now' e' = Throw (Error ''Engine has already been started.'') e'"
  using start_sets_started [OF assms] by (rule start_started)

theorem start_twice_throws_witness:
  "start still_scenes 0 (Engine_new plain_canvas) = Normal running_engine
   \<and> start still_scenes 5 running_engine
       = Throw (Error ''Engine has already been started.'') running_engine"
proof -
  have "\<not> isStarted (Engine_new plain_canvas)"
    by (simp add: Engine_new_def fixDPI_def Let_def)
  then obtain e' where "start still_scenes 0 (Engine_new plain_canvas) = Normal e'"
    by (simp add: start_def js_assert_def Let_def)
  then have first: "start still_scenes 0 (Engine_new plain_canvas) = Normal running_engine"
    by (simp add: running_engine_def)
  from start_twice_throws [OF first, of still_scenes 5] first show ?thesis by simp
qed


end
